theory Spec2Isabelle
  imports Main "HOL-Library.Sublist"
begin

section \<open>Python strings\<close>

text \<open>
  A Python \<open>str\<close> is a sequence of Unicode code points; it is modelled as a list of
  natural numbers, one per code point.  ASCII literals of the source are written with
  \<open>ascii\<close>; the Korean literals are given by their code points.
\<close>

type_synonym pystr = "nat list"

definition ascii :: "string \<Rightarrow> pystr" where
  "ascii s = map of_char s"

text \<open>
  The code points that \<open>str.strip()\<close> and \<open>str.split()\<close> (both without argument)
  treat as whitespace: U+0009..U+000D, U+001C..U+0020, U+0085, U+00A0, U+1680,
  U+2000..U+200A, U+2028, U+2029, U+202F, U+205F and U+3000.
\<close>

definition is_space :: "nat \<Rightarrow> bool" where
  "is_space c \<longleftrightarrow>
     (9 \<le> c \<and> c \<le> 13) \<or> (28 \<le> c \<and> c \<le> 32) \<or> c = 133 \<or> c = 160 \<or> c = 5760 \<or>
     (8192 \<le> c \<and> c \<le> 8202) \<or> c = 8232 \<or> c = 8233 \<or> c = 8239 \<or> c = 8287 \<or> c = 12288"

text \<open>\<open>s.strip()\<close>: leading and trailing whitespace removed.\<close>

definition str_strip :: "pystr \<Rightarrow> pystr" where
  "str_strip s = rev (dropWhile is_space (rev (dropWhile is_space s)))"

text \<open>
  \<open>s.split()\<close>: the maximal runs of non-whitespace code points, in order.  The first
  argument is the token being read.
\<close>

fun split_ws :: "pystr \<Rightarrow> pystr \<Rightarrow> pystr list" where
  "split_ws cur [] = (if cur = [] then [] else [cur])"
| "split_ws cur (c # cs) =
     (if is_space c then (if cur = [] then split_ws [] cs else cur # split_ws [] cs)
      else split_ws (cur @ [c]) cs)"

definition str_split :: "pystr \<Rightarrow> pystr list" where
  "str_split s = split_ws [] s"

text \<open>
  \<open>s.split(sep)\<close> for a separator of one code point: \<open>s\<close> is cut at every occurrence
  of the separator; the result is never empty (\<open>''.split('\n') == ['']\<close>).
\<close>

fun split_sep :: "nat \<Rightarrow> pystr \<Rightarrow> pystr \<Rightarrow> pystr list" where
  "split_sep sep cur [] = [cur]"
| "split_sep sep cur (c # cs) =
     (if c = sep then cur # split_sep sep [] cs else split_sep sep (cur @ [c]) cs)"

definition str_split_on :: "nat \<Rightarrow> pystr \<Rightarrow> pystr list" where
  "str_split_on sep s = split_sep sep [] s"

text \<open>\<open>sep.join(xs)\<close>.\<close>

fun str_join :: "pystr \<Rightarrow> pystr list \<Rightarrow> pystr" where
  "str_join sep [] = []"
| "str_join sep [x] = x"
| "str_join sep (x # y # ys) = x @ sep @ str_join sep (y # ys)"

text \<open>\<open>str(n)\<close> for a Python \<open>int\<close>: the decimal digits, with a minus sign if negative.\<close>

fun str_nat :: "nat \<Rightarrow> pystr" where
  "str_nat n = (if n < 10 then [48 + n] else str_nat (n div 10) @ [48 + n mod 10])"

definition str_int :: "int \<Rightarrow> pystr" where
  "str_int i = (if i < 0 then 45 # str_nat (nat (- i)) else str_nat (nat i))"


section \<open>Values decoded from JSON, exceptions\<close>

text \<open>
  What \<open>response.json()\<close> returns.  A \<open>dict\<close> is an association list holding each key
  once; a \<open>float\<close> keeps its literal, since the code never computes with one.
\<close>

datatype pyval =
    PNone
  | PBool bool
  | PInt int
  | PFloat pystr
  | PStr pystr
  | PList "pyval list"
  | PDict "(pystr \<times> pyval) list"

text \<open>
  The exceptions that can leave the modelled code.  \<open>Exception\<close> carries the message the
  source builds; \<open>KeyError\<close> and \<open>IndexError\<close> carry \<open>str(e)\<close>; \<open>TypeError\<close> and
  \<open>JSONDecodeError\<close> are raised by the interpreter and by \<open>response.json()\<close> with a
  message of their own; \<open>RequestException\<close> is raised by \<open>requests.post\<close> itself.
\<close>

datatype exn =
    Exception pystr
  | KeyError pystr
  | IndexError pystr
  | TypeError
  | JSONDecodeError
  | RequestException pystr

text \<open>\<open>obj[k]\<close> for a string literal \<open>k\<close>; \<open>str(KeyError(k))\<close> is \<open>repr(k)\<close>.\<close>

fun getitem_key :: "pyval \<Rightarrow> pystr \<Rightarrow> exn + pyval" where
  "getitem_key (PDict kvs) k =
     (case map_of kvs k of Some v \<Rightarrow> Inr v | None \<Rightarrow> Inl (KeyError ([39] @ k @ [39])))"
| "getitem_key v k = Inl TypeError"

text \<open>\<open>obj[0]\<close>.  The keys of a decoded JSON object are strings, so \<open>0\<close> is never one.\<close>

fun getitem_0 :: "pyval \<Rightarrow> exn + pyval" where
  "getitem_0 (PDict kvs) = Inl (KeyError (ascii ''0''))"
| "getitem_0 (PList []) = Inl (IndexError (ascii ''list index out of range''))"
| "getitem_0 (PList (x # xs)) = Inr x"
| "getitem_0 (PStr []) = Inl (IndexError (ascii ''string index out of range''))"
| "getitem_0 (PStr (c # cs)) = Inr (PStr [c])"
| "getitem_0 v = Inl TypeError"

definition bind_exn :: "exn + 'a \<Rightarrow> ('a \<Rightarrow> exn + 'b) \<Rightarrow> exn + 'b" where
  "bind_exn r f = (case r of Inl e \<Rightarrow> Inl e | Inr v \<Rightarrow> f v)"

text \<open>\<open>result["candidates"][0]["content"]["parts"][0]["text"]\<close>, left to right.\<close>

definition extract_text :: "pyval \<Rightarrow> exn + pyval" where
  "extract_text result =
     bind_exn (getitem_key result (ascii ''candidates'')) (\<lambda>v1.
     bind_exn (getitem_0 v1) (\<lambda>v2.
     bind_exn (getitem_key v2 (ascii ''content'')) (\<lambda>v3.
     bind_exn (getitem_key v3 (ascii ''parts'')) (\<lambda>v4.
     bind_exn (getitem_0 v4) (\<lambda>v5.
     getitem_key v5 (ascii ''text''))))))"

section \<open>The session, the debugger and the remote API\<close>

text \<open>
  A history entry \<open>{"role": r, "parts": [{"text": c}]}\<close>.  The content is whatever
  \<open>add_message\<close> was given: a string for every prompt, the decoded \<open>text\<close> field for a
  response.
\<close>

record message =
  role :: pystr
  content :: pyval

text \<open>
  What one call of \<open>requests.post\<close> does: it raises, or it returns a response with its
  \<open>status_code\<close>, its \<open>text\<close>, and the value of \<open>response.json()\<close> (\<open>None\<close> when
  that call raises).
\<close>

datatype http_reply =
    PostRaises pystr
  | Response int pystr "pyval option"

text \<open>
  The world outside the module.  \<open>requests_post\<close> answers a request from the requests
  made before it and the \<open>contents\<close> it carries (URL, headers and generation
  parameters are constants of the source); \<open>gdb_execute\<close> answers a command from the
  commands executed before it, with the output (\<open>Inr\<close>) or the message of a
  \<open>gdb.error\<close> (\<open>Inl\<close>).  \<open>str_lower\<close> is \<open>str.lower\<close> and \<open>str_of\<close> is \<open>str\<close> on a
  decoded JSON value, both taken from the Python library as they are.
\<close>

record env =
  str_lower :: "pystr \<Rightarrow> pystr"
  str_of :: "pyval \<Rightarrow> pystr"
  requests_post :: "message list list \<Rightarrow> message list \<Rightarrow> http_reply"
  gdb_execute :: "pystr list \<Rightarrow> pystr \<Rightarrow> pystr + pystr"

text \<open>
  The state the code changes: \<open>MCPClient.messages\<close>, the requests posted, the commands
  given to \<open>gdb.execute\<close> by \<open>execute_command\<close>, and the lines printed.  The field
  \<open>processed\<close> is not in the source: it records the argument of every call of
  \<open>_process_agent_response\<close>, so that statements can speak of the responses a run
  has processed.
\<close>

record state =
  messages :: "message list"
  http_log :: "message list list"
  gdb_log :: "pystr list"
  stdout :: "pystr list"
  processed :: "pyval list"

definition py_print :: "pystr \<Rightarrow> state \<Rightarrow> state" where
  "py_print line st = st\<lparr>stdout := stdout st @ [line]\<rparr>"

section \<open>MCPClient\<close>

definition gemini_role :: "pystr \<Rightarrow> pystr" where
  "gemini_role r = (if r = ascii ''assistant'' then ascii ''model'' else ascii ''user'')"

definition add_message :: "pystr \<Rightarrow> pyval \<Rightarrow> state \<Rightarrow> state" where
  "add_message r c st =
     st\<lparr>messages := messages st @ [\<lparr>role = gemini_role r, content = c\<rparr>]\<rparr>"

text \<open>The literal texts of the two error messages of \<open>query\<close>, lines 53 and 63.\<close>

definition api_error_prefix :: pystr where
  "api_error_prefix = ascii ''API '' @ [50724, 47448] @ ascii '': ''"

definition parse_error_prefix :: pystr where
  "parse_error_prefix =
     ascii ''API '' @ [51025, 45813] @ ascii '' '' @ [54028, 49905] @ ascii '' '' @
     [50724, 47448] @ ascii '': ''"

text \<open>
  \<open>MCPClient.query\<close>.  Only \<open>KeyError\<close> and \<open>IndexError\<close> are caught around the
  extraction; any other exception leaves \<open>query\<close> as it is.
\<close>

definition query :: "env \<Rightarrow> pystr \<Rightarrow> state \<Rightarrow> (exn + pyval) \<times> state" where
  "query E message st =
     (let st1 = add_message (ascii ''user'') (PStr message) st;
          st2 = st1\<lparr>http_log := http_log st1 @ [messages st1]\<rparr>
      in case requests_post E (http_log st1) (messages st1) of
           PostRaises m \<Rightarrow> (Inl (RequestException m), st2)
         | Response status_code body js \<Rightarrow>
             if status_code \<noteq> 200 then
               (Inl (Exception (api_error_prefix @ str_int status_code @ ascii '' - '' @ body)), st2)
             else
               (case js of
                  None \<Rightarrow> (Inl JSONDecodeError, st2)
                | Some result \<Rightarrow>
                    (case extract_text result of
                       Inr response_content \<Rightarrow>
                         (Inr response_content,
                          add_message (ascii ''assistant'') response_content st2)
                     | Inl (KeyError e) \<Rightarrow>
                         (Inl (Exception (parse_error_prefix @ e @ ascii '' - '' @ str_of E result)), st2)
                     | Inl (IndexError e) \<Rightarrow>
                         (Inl (Exception (parse_error_prefix @ e @ ascii '' - '' @ str_of E result)), st2)
                     | Inl e \<Rightarrow> (Inl e, st2))))"

section \<open>GDBCommandExecutor\<close>

text \<open>
  \<open>execute_command\<close>: the output of \<open>gdb.execute\<close>, or the text of line 213 with the
  message of the \<open>gdb.error\<close> it raised.
\<close>

definition exec_error_prefix :: pystr where
  "exec_error_prefix =
     [47749, 47161, 50612] @ ascii '' '' @ [49892, 54665] @ ascii '' '' @ [50724, 47448] @ ascii '': ''"

definition execute_command :: "env \<Rightarrow> pystr \<Rightarrow> state \<Rightarrow> pystr \<times> state" where
  "execute_command E command st =
     (case gdb_execute E (gdb_log st) command of
        Inr result \<Rightarrow> result
      | Inl e \<Rightarrow> exec_error_prefix @ e,
      st\<lparr>gdb_log := gdb_log st @ [command]\<rparr>)"

definition unsafe_commands :: "pystr list" where
  "unsafe_commands =
     [ascii ''quit'', ascii ''exit'', ascii ''detach'', ascii ''kill'', ascii ''set'',
      ascii ''shell'', ascii ''source'', ascii ''define'', ascii ''document'',
      ascii ''handle'', ascii ''signal'', ascii ''attach'']"

definition is_safe_command :: "env \<Rightarrow> pystr \<Rightarrow> bool" where
  "is_safe_command E command =
     (case str_split (str_strip command) of
        [] \<Rightarrow> False
      | cmd # command_parts \<Rightarrow> str_lower E cmd \<notin> set unsafe_commands)"

section \<open>AIAgentCommand\<close>

definition max_iterations :: nat where
  "max_iterations = 10"

text \<open>
  \<open>re.search(r'```TAG\n(.*?)```', response, re.DOTALL)\<close>, for each of the four tags.
  \<open>lazy_until_fence\<close> is the group \<open>(.*?)\<close> followed by the closing fence: the shortest
  text, of any code points, up to a fence.  \<open>re_search_block\<close> tries the start positions
  from the left and returns group 1 of the first match.
\<close>

definition fence :: pystr where
  "fence = [96, 96, 96]"

fun lazy_until_fence :: "pystr \<Rightarrow> pystr option" where
  "lazy_until_fence [] = None"
| "lazy_until_fence (c # cs) =
     (if prefix fence (c # cs) then Some [] else map_option ((#) c) (lazy_until_fence cs))"

definition match_block_here :: "pystr \<Rightarrow> pystr \<Rightarrow> pystr option" where
  "match_block_here tag s =
     (if prefix (fence @ tag @ [10]) s
      then lazy_until_fence (drop (length (fence @ tag @ [10])) s) else None)"

fun re_search_block :: "pystr \<Rightarrow> pystr \<Rightarrow> pystr option" where
  "re_search_block tag [] = None"
| "re_search_block tag (c # cs) =
     (case match_block_here tag (c # cs) of
        Some g \<Rightarrow> Some g
      | None \<Rightarrow> re_search_block tag cs)"

text \<open>
  The string literals that \<open>invoke\<close> and \<open>_process_agent_response\<close> print or send, by
  source line: \<open>step_banner\<close> 311, \<open>max_reached_notice\<close> 327, \<open>agent_done_banner\<close> 329,
  \<open>running_commands_banner\<close> 337, \<open>exec_echo_prefix\<close> 345, \<open>record_cmd_prefix\<close> and
  \<open>record_result_infix\<close> 349, \<open>unsafe_prefix\<close> 351, \<open>results_header\<close> 357,
  \<open>analysis_banner\<close> 363, \<open>next_step_banner\<close> 370, \<open>conclusion_banner\<close> 377.  The numbers
  from 44032 to 55203 are Hangul syllables.
\<close>

definition step_banner :: "nat \<Rightarrow> pystr" where
  "step_banner iteration =
     [10] @ ascii ''--- '' @ [45800, 44228] @ ascii '' '' @ str_int (int iteration) @
     ascii ''/'' @ str_int (int max_iterations) @ ascii '' ---''"

definition max_reached_notice :: pystr where
  "max_reached_notice =
     [10, 52572, 45824] @ ascii '' '' @ [48152, 48373] @ ascii '' '' @ [54943, 49688, 50640] @
     ascii '' '' @ [46020, 45804, 54664, 49845, 45768, 45796] @ ascii ''. '' @
     [51089, 50629, 51060] @ ascii '' '' @ [50756, 47308, 46104, 51648] @ ascii '' '' @
     [50506, 50520, 51012] @ ascii '' '' @ [49688] @ ascii '' '' @ [51080, 49845, 45768, 45796] @
     ascii ''.''"

definition agent_done_banner :: pystr where
  "agent_done_banner =
     [10] @ ascii ''=== AI '' @ [50640, 51060, 51204, 53944] @ ascii '' '' @ [50756, 47308] @
     ascii '' ===''"

definition running_commands_banner :: pystr where
  "running_commands_banner =
     [10] @ ascii ''[AI '' @ [50640, 51060, 51204, 53944, 44032] @ ascii '' '' @
     [47749, 47161, 50612] @ ascii '' '' @ [49892, 54665] @ ascii '' '' @ [51473] @ ascii ''...]''"

definition exec_echo_prefix :: pystr where
  "exec_echo_prefix = [49892, 54665] @ ascii '': ''"

definition record_cmd_prefix :: pystr where
  "record_cmd_prefix = [47749, 47161, 50612] @ ascii '': ''"

definition record_result_infix :: pystr where
  "record_result_infix = [10, 44208, 44284] @ ascii '':'' @ [10]"

definition unsafe_prefix :: pystr where
  "unsafe_prefix =
     [50504, 51204, 54616, 51648] @ ascii '' '' @ [50506, 51008] @ ascii '' '' @
     [47749, 47161, 50612, 51077, 45768, 45796] @ ascii '': ''"

definition results_header :: pystr where
  "results_header =
     [47749, 47161, 50612] @ ascii '' '' @ [49892, 54665] @ ascii '' '' @ [44208, 44284] @
     ascii '':'' @ [10, 10]"

definition analysis_banner :: pystr where
  "analysis_banner = [10] @ ascii ''[AI '' @ [48516, 49437] @ ascii '' '' @ [44208, 44284] @ ascii '']''"

definition next_step_banner :: pystr where
  "next_step_banner = [10] @ ascii ''['' @ [45796, 51020] @ ascii '' '' @ [45800, 44228] @ ascii '']''"

definition conclusion_banner :: pystr where
  "conclusion_banner = [10] @ ascii ''['' @ [52572, 51333] @ ascii '' '' @ [44208, 47200] @ ascii '']''"

text \<open>
  The \<open>for cmd in commands\<close> loop of \<open>_process_agent_response\<close>, with the list
  \<open>results\<close> it appends to.
\<close>

fun run_commands :: "env \<Rightarrow> pystr list \<Rightarrow> pystr list \<Rightarrow> state \<Rightarrow> pystr list \<times> state" where
  "run_commands E [] results st = (results, st)"
| "run_commands E (raw # commands) results st =
     (let cmd = str_strip raw in
      if cmd = [] then run_commands E commands results st
      else
        let st1 = py_print (exec_echo_prefix @ cmd) st in
        if is_safe_command E cmd then
          let (result, st2) = execute_command E cmd st1;
              st3 = py_print result st2
          in run_commands E commands
               (results @ [record_cmd_prefix @ cmd @ record_result_infix @ result]) st3
        else
          let msg = unsafe_prefix @ cmd;
              st2 = py_print msg st1
          in run_commands E commands (results @ [msg]) st2)"

text \<open>
  \<open>_process_agent_response\<close>, lines 334 to 357: the command block.  The value that
  \<open>query\<close> returns is dropped; an exception of \<open>query\<close> is not caught.
\<close>

definition command_phase :: "env \<Rightarrow> pystr \<Rightarrow> state \<Rightarrow> (exn + unit) \<times> state" where
  "command_phase E r st =
     (case re_search_block (ascii ''gdb-command'') r of
        None \<Rightarrow> (Inr (), st)
      | Some g \<Rightarrow>
          let commands = str_split_on 10 (str_strip g);
              st1 = py_print running_commands_banner st;
              (results, st2) = run_commands E commands [] st1;
              results_text = str_join [10, 10] results
          in (case query E (results_header @ results_text) st2 of
                (Inl e, st3) \<Rightarrow> (Inl e, st3)
              | (Inr sent, st3) \<Rightarrow> (Inr (), st3)))"

text \<open>
  \<open>_process_agent_response\<close>, lines 359 to 381: the analysis, next-step and complete
  blocks, and the value returned.
\<close>

definition report_blocks :: "pystr \<Rightarrow> state \<Rightarrow> bool \<times> state" where
  "report_blocks r st3 =
     (let st4 = (case re_search_block (ascii ''analysis'') r of
                   None \<Rightarrow> st3
                 | Some g \<Rightarrow> py_print (str_strip g) (py_print analysis_banner st3));
          st5 = (case re_search_block (ascii ''next-step'') r of
                   None \<Rightarrow> st4
                 | Some g \<Rightarrow> py_print (str_strip g) (py_print next_step_banner st4))
      in (case re_search_block (ascii ''complete'') r of
            Some g \<Rightarrow> (True, py_print (str_strip g) (py_print conclusion_banner st5))
          | None \<Rightarrow> (False, st5)))"

text \<open>
  \<open>_process_agent_response\<close>.  \<open>re.search\<close> raises \<open>TypeError\<close> on a response that is
  not a string.
\<close>

definition process_agent_response :: "env \<Rightarrow> pyval \<Rightarrow> state \<Rightarrow> (exn + bool) \<times> state" where
  "process_agent_response E response st0 =
     (let st = st0\<lparr>processed := processed st0 @ [response]\<rparr> in
      case response of
        PStr r \<Rightarrow>
          (case command_phase E r st of
             (Inl e, st3) \<Rightarrow> (Inl e, st3)
           | (Inr u, st3) \<Rightarrow>
               (case report_blocks r st3 of (done, st6) \<Rightarrow> (Inr done, st6)))
      | other \<Rightarrow> (Inl TypeError, st))"

text \<open>
  \<open>self.mcp_client.messages[-1]["parts"][0]["text"]\<close>; indexing an empty list raises
  \<open>IndexError\<close>.
\<close>

definition last_message_text :: "state \<Rightarrow> exn + pyval" where
  "last_message_text st =
     (if messages st = [] then Inl (IndexError (ascii ''list index out of range''))
      else Inr (content (last (messages st))))"

text \<open>
  Lines 313 to 318 of \<open>invoke\<close>: where the response of an iteration comes from.  The
  argument is the value of \<open>iteration\<close> after its increment.
\<close>

definition obtain_response :: "env \<Rightarrow> pystr \<Rightarrow> nat \<Rightarrow> state \<Rightarrow> (exn + pyval) \<times> state" where
  "obtain_response E user_request iteration st =
     (if iteration = 1 then query E user_request st
      else (last_message_text st, st))"

text \<open>
  The \<open>while\<close> loop of \<open>AIAgentCommand.invoke\<close>, entered with the current value of
  \<open>iteration\<close>.  It returns the value of \<open>iteration\<close> on leaving the loop and whether
  the loop was left by \<open>break\<close>, or the exception that ended it.
\<close>

function agent_loop :: "env \<Rightarrow> pystr \<Rightarrow> nat \<Rightarrow> state \<Rightarrow> (exn + nat \<times> bool) \<times> state" where
  "agent_loop E user_request iteration st =
     (if iteration < max_iterations then
        let iteration1 = iteration + 1;
            st1 = py_print (step_banner iteration1) st
        in case obtain_response E user_request iteration1 st1 of
             (Inl e, st2) \<Rightarrow> (Inl e, st2)
           | (Inr response, st2) \<Rightarrow>
               (case process_agent_response E response st2 of
                  (Inl e, st3) \<Rightarrow> (Inl e, st3)
                | (Inr True, st3) \<Rightarrow> (Inr (iteration1, True), st3)
                | (Inr False, st3) \<Rightarrow>
                    agent_loop E user_request iteration1
                      (if iteration1 \<ge> max_iterations then py_print max_reached_notice st3
                       else st3))
      else (Inr (iteration, False), st))"
  by pat_completeness auto
termination
  by (relation "measure (\<lambda>(E, user_request, iteration, st). max_iterations - iteration)") auto

text \<open>
  Lines 308 to 329 of \<open>invoke\<close>: the loop from \<open>iteration = 0\<close>, then the closing banner
  (not printed when an exception ends the run).
\<close>

definition run_agent :: "env \<Rightarrow> pystr \<Rightarrow> state \<Rightarrow> (exn + nat \<times> bool) \<times> state" where
  "run_agent E user_request st =
     (case agent_loop E user_request 0 st of
        (Inl e, st1) \<Rightarrow> (Inl e, st1)
      | (Inr r, st1) \<Rightarrow> (Inr r, py_print agent_done_banner st1))"

section \<open>Notions of the specification, and concrete inputs\<close>

text \<open>
  The first whitespace-delimited token of a string, stated without \<open>strip\<close> and
  \<open>split\<close>: skip the leading whitespace, then read up to the next whitespace.
\<close>

definition first_token :: "pystr \<Rightarrow> pystr" where
  "first_token s = takeWhile (\<lambda>c. \<not> is_space c) (dropWhile is_space s)"

text \<open>
  \<open>str.lower\<close> on ASCII text, and an environment for concrete runs: the remote answers
  every request with the reply \<open>reply\<close>, the debugger answers every command with
  \<open>out\<close>.
\<close>

definition ascii_lower :: "pystr \<Rightarrow> pystr" where
  "ascii_lower s = map (\<lambda>c. if 65 \<le> c \<and> c \<le> 90 then c + 32 else c) s"

definition const_env :: "http_reply \<Rightarrow> pystr \<Rightarrow> env" where
  "const_env reply out =
     \<lparr>str_lower = ascii_lower, str_of = (\<lambda>v. ascii ''...''),
      requests_post = (\<lambda>log contents. reply), gdb_execute = (\<lambda>log command. Inr out)\<rparr>"

text \<open>The JSON value \<open>{"candidates": [{"content": {"parts": [{"text": t}]}}]}\<close>.\<close>

definition candidate_json :: "pyval \<Rightarrow> pyval" where
  "candidate_json t =
     PDict [(ascii ''candidates'',
       PList [PDict [(ascii ''content'',
         PDict [(ascii ''parts'', PList [PDict [(ascii ''text'', t)]])])]])]"

text \<open>A reply with status 200 whose candidate holds the text \<open>t\<close>; some responses.\<close>

definition text_reply :: "pystr \<Rightarrow> http_reply" where
  "text_reply t = Response 200 [] (Some (candidate_json (PStr t)))"

definition commands_response :: pystr where
  "commands_response =
     fence @ ascii ''gdb-command'' @ [10] @ ascii ''info locals'' @ [10] @ ascii ''quit'' @ [10] @
     fence"

definition commands_complete_response :: pystr where
  "commands_complete_response =
     fence @ ascii ''gdb-command'' @ [10] @ ascii ''info locals'' @ [10] @ fence @ [10] @
     fence @ ascii ''complete'' @ [10] @ ascii ''done'' @ [10] @ fence"

definition complete_response :: pystr where
  "complete_response = fence @ ascii ''complete'' @ [10] @ ascii ''done'' @ [10] @ fence"

definition blank_commands_response :: pystr where
  "blank_commands_response =
     fence @ ascii ''gdb-command'' @ [10] @ ascii ''  '' @ [10] @ [10] @ fence"

definition three_line_response :: pystr where
  "three_line_response =
     fence @ ascii ''gdb-command'' @ [10] @ ascii ''info locals'' @ [10] @ ascii ''  '' @ [10] @
     ascii ''  bt  '' @ fence"

definition empty_state :: state where
  "empty_state = \<lparr>messages = [], http_log = [], gdb_log = [], stdout = [], processed = []\<rparr>"

text \<open>Whether a response contains a block of the given tag: whether the search matches.\<close>

definition contains_block :: "pystr \<Rightarrow> pyval \<Rightarrow> bool" where
  "contains_block tag response =
     (case response of PStr r \<Rightarrow> re_search_block tag r \<noteq> None | other \<Rightarrow> False)"

text \<open>
  The command sequence of a block as the specification words it: the enclosed text is
  split on line boundaries, blank lines are dropped, the remaining lines are trimmed.
\<close>

definition block_commands :: "pystr \<Rightarrow> pystr list" where
  "block_commands g = filter (\<lambda>l. l \<noteq> []) (map str_strip (str_split_on 10 g))"

text \<open>
  What \<open>execute_command\<close> returns for a command, given the commands executed before it;
  and the records of a command sequence in closed form: the record of the \<open>i\<close>-th
  command depends on the safe commands before it only.
\<close>

definition command_output :: "env \<Rightarrow> pystr list \<Rightarrow> pystr \<Rightarrow> pystr" where
  "command_output E log command =
     (case gdb_execute E log command of Inr result \<Rightarrow> result | Inl e \<Rightarrow> exec_error_prefix @ e)"

definition command_record :: "env \<Rightarrow> pystr list \<Rightarrow> pystr list \<Rightarrow> nat \<Rightarrow> pystr" where
  "command_record E log cs i =
     (if is_safe_command E (cs ! i) then
        record_cmd_prefix @ cs ! i @ record_result_infix @
        command_output E (log @ filter (is_safe_command E) (take i cs)) (cs ! i)
      else unsafe_prefix @ cs ! i)"

definition feedback_records :: "env \<Rightarrow> pystr list \<Rightarrow> pystr list \<Rightarrow> pystr list" where
  "feedback_records E log cs = map (command_record E log cs) [0..<length cs]"

text \<open>
  What the command loop prints for a command sequence, in closed form: for the \<open>i\<close>-th
  command the echo line, then the output of the command or the refusal.
\<close>

definition command_echo_pair :: "env \<Rightarrow> pystr list \<Rightarrow> pystr list \<Rightarrow> nat \<Rightarrow> pystr list" where
  "command_echo_pair E log cs i =
     [exec_echo_prefix @ cs ! i,
      if is_safe_command E (cs ! i)
      then command_output E (log @ filter (is_safe_command E) (take i cs)) (cs ! i)
      else unsafe_prefix @ cs ! i]"

definition command_echo :: "env \<Rightarrow> pystr list \<Rightarrow> pystr list \<Rightarrow> pystr list" where
  "command_echo E log cs = concat (map (command_echo_pair E log cs) [0..<length cs])"

text \<open>The history entries that \<open>add_message\<close> makes of a prompt and of a response.\<close>

definition user_message :: "pystr \<Rightarrow> message" where
  "user_message m = \<lparr>role = ascii ''user'', content = PStr m\<rparr>"

definition model_message :: "pyval \<Rightarrow> message" where
  "model_message t = \<lparr>role = ascii ''model'', content = t\<rparr>"

section \<open>Whitespace splitting and stripping\<close>

lemma split_ws_cur:
  "cur \<noteq> [] \<Longrightarrow>
   split_ws cur s = (cur @ takeWhile (\<lambda>c. \<not> is_space c) s) # split_ws [] (dropWhile (\<lambda>c. \<not> is_space c) s)"
  by (induction s arbitrary: cur) auto

lemma split_ws_Nil:
  "split_ws [] s =
     (case dropWhile is_space s of
        [] \<Rightarrow> []
      | t \<Rightarrow> takeWhile (\<lambda>c. \<not> is_space c) t # split_ws [] (dropWhile (\<lambda>c. \<not> is_space c) t))"
proof (induction s)
  case Nil
  show ?case by simp
next
  case (Cons c cs)
  show ?case
  proof (cases "is_space c")
    case True
    with Cons show ?thesis by simp
  next
    case False
    then show ?thesis using split_ws_cur [of "[c]" cs] by simp
  qed
qed

lemma rstrip_Cons:
  "rev (dropWhile P (rev xs @ [x])) =
     (if \<forall>y\<in>set xs. P y then (if P x then [] else [x]) else x # rev (dropWhile P (rev xs)))"
  by (simp add: dropWhile_append)

lemma takeWhile_rstrip:
  "takeWhile (\<lambda>c. \<not> P c) (rev (dropWhile P (rev xs))) = takeWhile (\<lambda>c. \<not> P c) xs"
proof (induction xs)
  case Nil
  show ?case by simp
next
  case (Cons x xs)
  have "\<forall>y\<in>set xs. P y \<Longrightarrow> takeWhile (\<lambda>c. \<not> P c) xs = []"
    by (cases xs) auto
  with Cons show ?case
    by (simp add: rstrip_Cons)
qed

lemma dropWhile_rstrip:
  "dropWhile P (rev (dropWhile P (rev xs))) = rev (dropWhile P (rev (dropWhile P xs)))"
proof (induction xs)
  case Nil
  show ?case by simp
next
  case (Cons x xs)
  show ?case
  proof (cases "P x")
    case True
    show ?thesis
    proof (cases "\<forall>y\<in>set xs. P y")
      case all: True
      with True have 1: "rev (dropWhile P (rev (x # xs))) = []"
        by (simp add: rstrip_Cons)
      from True all have 2: "dropWhile P (x # xs) = []" by simp
      show ?thesis unfolding 1 2 by simp
    next
      case False
      with True have "dropWhile P (rev (dropWhile P (rev (x # xs)))) =
          dropWhile P (rev (dropWhile P (rev xs)))"
        by (auto simp: rstrip_Cons)
      also have "\<dots> = rev (dropWhile P (rev (dropWhile P xs)))" by (rule Cons.IH)
      also from True have "\<dots> = rev (dropWhile P (rev (dropWhile P (x # xs))))" by simp
      finally show ?thesis .
    qed
  next
    case False
    then show ?thesis by (simp add: rstrip_Cons)
  qed
qed

lemma str_strip_Nil_iff: "str_strip s = [] \<longleftrightarrow> (\<forall>c\<in>set s. is_space c)"
proof -
  have "str_strip s = [] \<longleftrightarrow> (\<forall>c\<in>set (dropWhile is_space s). is_space c)"
    by (simp add: str_strip_def)
  also have "\<dots> \<longleftrightarrow> dropWhile is_space (dropWhile is_space s) = []"
    by (simp only: dropWhile_eq_Nil_conv)
  also have "\<dots> \<longleftrightarrow> (\<forall>c\<in>set s. is_space c)"
    by (simp only: dropWhile_idem dropWhile_eq_Nil_conv)
  finally show ?thesis .
qed

lemma dropWhile_str_strip: "dropWhile is_space (str_strip s) = str_strip s"
  unfolding str_strip_def by (subst dropWhile_rstrip) (simp only: dropWhile_idem)

lemma first_token_str_strip: "first_token (str_strip s) = first_token s"
  by (simp add: first_token_def dropWhile_str_strip) (simp add: str_strip_def takeWhile_rstrip)

lemma first_token_Nil_iff: "first_token s = [] \<longleftrightarrow> (\<forall>c\<in>set s. is_space c)"
proof (cases "dropWhile is_space s")
  case Nil
  then have "first_token s = []" by (simp only: first_token_def takeWhile.simps)
  moreover from Nil have "\<forall>c\<in>set s. is_space c" by (simp only: dropWhile_eq_Nil_conv)
  ultimately show ?thesis by simp
next
  case (Cons a list)
  then have "\<not> is_space a" using hd_dropWhile [of is_space s] by simp
  with Cons have "first_token s \<noteq> []" by (simp add: first_token_def)
  moreover have "\<not> (\<forall>c\<in>set s. is_space c)"
  proof -
    from Cons have "dropWhile is_space s \<noteq> []" by simp
    then show ?thesis using dropWhile_eq_Nil_conv [of is_space s] by blast
  qed
  ultimately show ?thesis by simp
qed

lemma str_split_first:
  "str_split s =
     (if first_token s = [] then []
      else first_token s # str_split (dropWhile (\<lambda>c. \<not> is_space c) (dropWhile is_space s)))"
proof (cases "dropWhile is_space s")
  case Nil
  then have "first_token s = []" by (simp only: first_token_def takeWhile.simps)
  moreover from Nil have "split_ws [] s = []"
    by (simp only: split_ws_Nil [of s] list.case)
  ultimately show ?thesis by (simp add: str_split_def)
next
  case (Cons a list)
  then have "\<not> is_space a" using hd_dropWhile [of is_space s] by simp
  with Cons have "first_token s \<noteq> []" by (simp add: first_token_def)
  moreover from Cons have "split_ws [] s =
      takeWhile (\<lambda>c. \<not> is_space c) (dropWhile is_space s) #
      split_ws [] (dropWhile (\<lambda>c. \<not> is_space c) (dropWhile is_space s))"
    by (simp only: split_ws_Nil [of s] list.case)
  ultimately show ?thesis by (simp add: str_split_def first_token_def)
qed

lemma is_safe_command_first_token:
  "is_safe_command E command =
     (first_token command \<noteq> [] \<and> str_lower E (first_token command) \<notin> set unsafe_commands)"
  by (simp add: is_safe_command_def str_split_first [of "str_strip command"] first_token_str_strip)

lemma first_token_decomp:
  assumes "\<forall>c\<in>set ws. is_space c" and "t \<noteq> []" and "\<forall>c\<in>set t. \<not> is_space c"
    and "rest = [] \<or> is_space (hd rest)"
  shows "first_token (ws @ t @ rest) = t"
proof -
  from assms(1,2,3) have "dropWhile is_space (ws @ t @ rest) = t @ rest"
    by (cases t) (simp_all add: dropWhile_append)
  moreover from assms(3,4) have "takeWhile (\<lambda>c. \<not> is_space c) (t @ rest) = t"
    by (cases rest) (simp_all add: takeWhile_append)
  ultimately show ?thesis by (simp add: first_token_def)
qed


section \<open>The safety filter\<close>

text \<open>
  Claim C2.  For every command string, \<open>is_safe_command\<close> is false when the string is
  empty or all whitespace; otherwise it is false exactly when the first
  whitespace-delimited token, lower-cased, is one of quit, exit, detach, kill, set,
  shell, source, define, document, handle, signal, attach, and true for every other
  first token, whatever follows the token.
\<close>

theorem is_safe_command_denylist:
  "(is_safe_command E command \<longleftrightarrow>
      first_token command \<noteq> [] \<and>
      str_lower E (first_token command) \<notin>
        {ascii ''quit'', ascii ''exit'', ascii ''detach'', ascii ''kill'', ascii ''set'',
         ascii ''shell'', ascii ''source'', ascii ''define'', ascii ''document'',
         ascii ''handle'', ascii ''signal'', ascii ''attach''}) \<and>
   ((\<forall>c\<in>set command. is_space c) \<longrightarrow> \<not> is_safe_command E command) \<and>
   ((\<forall>c\<in>set ws. is_space c) \<and> t \<noteq> [] \<and> (\<forall>c\<in>set t. \<not> is_space c) \<and>
    (rest = [] \<or> is_space (hd rest)) \<longrightarrow>
      (is_safe_command E (ws @ t @ rest) \<longleftrightarrow> str_lower E t \<notin> set unsafe_commands))"
proof (intro conjI impI)
  show "is_safe_command E command \<longleftrightarrow>
      first_token command \<noteq> [] \<and>
      str_lower E (first_token command) \<notin>
        {ascii ''quit'', ascii ''exit'', ascii ''detach'', ascii ''kill'', ascii ''set'',
         ascii ''shell'', ascii ''source'', ascii ''define'', ascii ''document'',
         ascii ''handle'', ascii ''signal'', ascii ''attach''}"
    by (simp add: is_safe_command_first_token unsafe_commands_def)
next
  assume "\<forall>c\<in>set command. is_space c"
  then have "first_token command = []" by (simp only: first_token_Nil_iff)
  then show "\<not> is_safe_command E command" by (simp add: is_safe_command_first_token)
next
  assume "(\<forall>c\<in>set ws. is_space c) \<and> t \<noteq> [] \<and> (\<forall>c\<in>set t. \<not> is_space c) \<and>
    (rest = [] \<or> is_space (hd rest))"
  then have "first_token (ws @ t @ rest) = t" and "t \<noteq> []"
    by (simp_all add: first_token_decomp)
  then show "is_safe_command E (ws @ t @ rest) \<longleftrightarrow> str_lower E t \<notin> set unsafe_commands"
    by (simp add: is_safe_command_first_token)
qed

theorem is_safe_command_denylist_witness:
  "list_all is_space (ascii ''  '') \<and> ascii ''QUIT'' \<noteq> [] \<and>
   list_all (\<lambda>c. \<not> is_space c) (ascii ''QUIT'') \<and> is_space (hd (ascii '' now'')) \<and>
   \<not> is_safe_command (const_env (PostRaises []) []) (ascii ''  QUIT now'') \<and>
   is_safe_command (const_env (PostRaises []) []) (ascii ''info locals'') \<and>
   \<not> is_safe_command (const_env (PostRaises []) []) (ascii ''   '')"
proof -
  let ?E = "const_env (PostRaises []) []"
  have h: "(\<forall>c\<in>set (ascii ''  ''). is_space c) \<and> ascii ''QUIT'' \<noteq> [] \<and>
      (\<forall>c\<in>set (ascii ''QUIT''). \<not> is_space c) \<and>
      (ascii '' now'' = [] \<or> is_space (hd (ascii '' now'')))"
    by (simp add: ascii_def is_space_def)
  have sp: "\<forall>c\<in>set (ascii ''   ''). is_space c"
    by (simp add: ascii_def is_space_def)
  have 1: "\<not> is_safe_command ?E (ascii ''  QUIT now'')"
    using is_safe_command_denylist [of ?E "[]" "ascii ''  ''" "ascii ''QUIT''" "ascii '' now''"] h
    by (simp add: ascii_def const_env_def ascii_lower_def unsafe_commands_def)
  have 2: "is_safe_command ?E (ascii ''info locals'')"
    using is_safe_command_denylist [of ?E "[]" "[]" "ascii ''info''" "ascii '' locals''"]
    by (simp add: ascii_def const_env_def ascii_lower_def unsafe_commands_def is_space_def)
  have 3: "\<not> is_safe_command ?E (ascii ''   '')"
    using is_safe_command_denylist [of ?E "ascii ''   ''" "[]" "[]" "[]"] sp by blast
  from h 1 2 3 show ?thesis by (simp add: ascii_def list_all_iff)
qed

section \<open>Effects of a query\<close>

lemma gemini_role_user: "gemini_role (ascii ''user'') = ascii ''user''"
  by (simp add: gemini_role_def ascii_def)

lemma gemini_role_assistant: "gemini_role (ascii ''assistant'') = ascii ''model''"
  by (simp add: gemini_role_def)

lemma add_message_user:
  "add_message (ascii ''user'') (PStr m) st = st\<lparr>messages := messages st @ [user_message m]\<rparr>"
  by (simp add: add_message_def gemini_role_user user_message_def)

lemma add_message_assistant:
  "add_message (ascii ''assistant'') t st = st\<lparr>messages := messages st @ [model_message t]\<rparr>"
  by (simp add: add_message_def gemini_role_assistant model_message_def)

lemma query_failure:
  "query E m st = (Inl e, st') \<Longrightarrow>
   st' = st\<lparr>messages := messages st @ [user_message m],
             http_log := http_log st @ [messages st @ [user_message m]]\<rparr>"
  by (auto simp: query_def add_message_user add_message_assistant Let_def
      split: http_reply.splits option.splits sum.splits exn.splits if_splits)

lemma query_success:
  "query E m st = (Inr t, st') \<Longrightarrow>
   st' = st\<lparr>messages := messages st @ [user_message m, model_message t],
             http_log := http_log st @ [messages st @ [user_message m]]\<rparr>"
  by (auto simp: query_def add_message_user add_message_assistant Let_def
      split: http_reply.splits option.splits sum.splits exn.splits if_splits)

lemma query_success_reply:
  "query E m st = (Inr t, st') \<Longrightarrow>
   \<exists>body result. requests_post E (http_log st) (messages st @ [user_message m]) =
       Response 200 body (Some result) \<and> extract_text result = Inr t"
  by (auto simp: query_def add_message_user add_message_assistant Let_def
      split: http_reply.splits option.splits sum.splits exn.splits if_splits)

lemma query_status_error:
  "requests_post E (http_log st) (messages st @ [user_message m]) = Response code body js \<Longrightarrow>
   code \<noteq> 200 \<Longrightarrow>
   fst (query E m st) = Inl (Exception (api_error_prefix @ str_int code @ ascii '' - '' @ body))"
  by (simp add: query_def add_message_user Let_def)

lemma query_effect:
  "snd (query E m st) =
     (case fst (query E m st) of
        Inl e \<Rightarrow> st\<lparr>messages := messages st @ [user_message m],
                     http_log := http_log st @ [messages st @ [user_message m]]\<rparr>
      | Inr t \<Rightarrow> st\<lparr>messages := messages st @ [user_message m, model_message t],
                     http_log := http_log st @ [messages st @ [user_message m]]\<rparr>)"
proof (cases "query E m st")
  case (Pair r st')
  then show ?thesis
    by (cases r) (auto dest: query_failure query_success)
qed

section \<open>Lines of a command block\<close>

lemma split_sep_cur:
  "split_sep sep cur s = (cur @ hd (split_sep sep [] s)) # tl (split_sep sep [] s)"
proof (induction s arbitrary: cur)
  case Nil
  show ?case by simp
next
  case (Cons c cs)
  show ?case
  proof (cases "c = sep")
    case True
    then show ?thesis by simp
  next
    case False
    then show ?thesis
      using Cons [of "cur @ [c]"] Cons [of "[c]"] by simp
  qed
qed

lemma split_sep_ne: "split_sep sep cur s \<noteq> []"
  by (induction s arbitrary: cur) auto

lemma str_split_on_Cons:
  "str_split_on sep (c # s) =
     (if c = sep then [] # str_split_on sep s
      else (c # hd (str_split_on sep s)) # tl (str_split_on sep s))"
  using split_sep_cur [of sep "[c]" s] by (simp add: str_split_on_def)

lemma str_split_on_ne: "str_split_on sep s \<noteq> []"
  by (simp add: str_split_on_def split_sep_ne)

lemma str_split_on_snoc:
  "str_split_on sep (s @ [c]) =
     (if c = sep then str_split_on sep s @ [[]]
      else butlast (str_split_on sep s) @ [last (str_split_on sep s) @ [c]])"
proof (induction s)
  case Nil
  show ?case by (simp add: str_split_on_def)
next
  case (Cons a s)
  have ne: "str_split_on sep s \<noteq> []" by (rule str_split_on_ne)
  have ne': "str_split_on sep (s @ [c]) \<noteq> []" by (rule str_split_on_ne)
  show ?case
  proof (cases "c = sep")
    case True
    with Cons ne show ?thesis
      by (cases "str_split_on sep s") (simp_all add: str_split_on_Cons)
  next
    case False
    with Cons ne show ?thesis
      by (cases "str_split_on sep s" rule: rev_cases)
         (auto simp: str_split_on_Cons butlast_append last_append hd_append split: if_splits)
  qed
qed

lemma str_strip_space_Cons: "is_space c \<Longrightarrow> str_strip (c # s) = str_strip s"
  by (simp add: str_strip_def)

lemma str_strip_space_snoc:
  assumes "is_space c"
  shows "str_strip (s @ [c]) = str_strip s"
proof (cases "\<forall>x\<in>set s. is_space x")
  case True
  then have "dropWhile is_space s = []" by simp
  moreover from True assms have "dropWhile is_space (s @ [c]) = []" by simp
  ultimately show ?thesis by (simp only: str_strip_def)
next
  case False
  then have "dropWhile is_space (s @ [c]) = dropWhile is_space s @ [c]"
    by (auto simp: dropWhile_append)
  with assms show ?thesis by (simp add: str_strip_def)
qed

lemma str_strip_Nil: "str_strip [] = []"
  by (simp add: str_strip_def)

lemma is_space_newline: "is_space 10"
  by (simp add: is_space_def)

lemma block_commands_space_Cons:
  assumes "is_space c"
  shows "block_commands (c # s) = block_commands s"
proof (cases "str_split_on 10 s")
  case Nil
  then show ?thesis using str_split_on_ne [of 10 s] by blast
next
  case (Cons l ls)
  with assms show ?thesis
    by (simp add: block_commands_def str_split_on_Cons str_strip_space_Cons str_strip_Nil)
qed

lemma block_commands_space_snoc:
  assumes "is_space c"
  shows "block_commands (s @ [c]) = block_commands s"
proof (cases "str_split_on 10 s" rule: rev_cases)
  case Nil
  then show ?thesis using str_split_on_ne [of 10 s] by blast
next
  case (snoc ls l)
  with assms show ?thesis
    by (simp add: block_commands_def str_split_on_snoc str_strip_space_snoc str_strip_Nil)
qed

lemma block_commands_dropWhile: "block_commands (dropWhile is_space s) = block_commands s"
  by (induction s) (simp_all add: block_commands_space_Cons)

lemma block_commands_rstrip:
  "block_commands (rev (dropWhile is_space (rev s))) = block_commands s"
  by (induction s rule: rev_induct) (simp_all add: block_commands_space_snoc)

lemma block_commands_str_strip: "block_commands (str_strip g) = block_commands g"
  by (simp add: str_strip_def block_commands_rstrip block_commands_dropWhile)

lemma str_strip_idem: "str_strip (str_strip s) = str_strip s"
proof -
  have "str_strip (str_strip s) = rev (dropWhile is_space (rev (str_strip s)))"
    by (subst str_strip_def) (simp only: dropWhile_str_strip)
  also have "\<dots> = str_strip s"
    by (simp add: str_strip_def)
  finally show ?thesis .
qed

section \<open>The command loop in closed form\<close>

lemma feedback_records_Nil: "feedback_records E log [] = []"
  by (simp add: feedback_records_def)

lemma feedback_records_Cons:
  "feedback_records E log (c # cs) =
     (if is_safe_command E c
      then (record_cmd_prefix @ c @ record_result_infix @ command_output E log c) #
           feedback_records E (log @ [c]) cs
      else (unsafe_prefix @ c) # feedback_records E log cs)"
proof -
  have "[0..<Suc (length cs)] = 0 # map Suc [0..<length cs]"
    by (simp only: map_Suc_upt upt_conv_Cons [OF zero_less_Suc])
  then show ?thesis
    by (simp add: feedback_records_def command_record_def del: upt_Suc)
qed

lemma execute_command_eq:
  "execute_command E c st = (command_output E (gdb_log st) c, st\<lparr>gdb_log := gdb_log st @ [c]\<rparr>)"
  by (simp add: execute_command_def command_output_def)

lemma run_commands_closed:
  assumes "\<forall>c\<in>set cs. str_strip c = c \<and> c \<noteq> []"
  shows "\<exists>out. run_commands E cs results st =
     (results @ feedback_records E (gdb_log st) cs,
      st\<lparr>gdb_log := gdb_log st @ filter (is_safe_command E) cs, stdout := stdout st @ out\<rparr>)"
  using assms
proof (induction cs arbitrary: results st)
  case Nil
  have "st = st\<lparr>gdb_log := gdb_log st @ [], stdout := stdout st @ []\<rparr>" by simp
  then show ?case by (auto simp: feedback_records_Nil intro: exI [of _ "[]"])
next
  case (Cons c cs)
  then have c: "str_strip c = c" "c \<noteq> []" and cs: "\<forall>c\<in>set cs. str_strip c = c \<and> c \<noteq> []"
    by simp_all
  show ?case
  proof (cases "is_safe_command E c")
    case True
    let ?st3 = "py_print (command_output E (gdb_log st) c)
                  ((py_print (exec_echo_prefix @ c) st)\<lparr>gdb_log := gdb_log st @ [c]\<rparr>)"
    let ?rs = "results @ [record_cmd_prefix @ c @ record_result_infix @ command_output E (gdb_log st) c]"
    from Cons.IH [OF cs, of ?rs ?st3] obtain out where
      "run_commands E cs ?rs ?st3 =
         (?rs @ feedback_records E (gdb_log ?st3) cs,
          ?st3\<lparr>gdb_log := gdb_log ?st3 @ filter (is_safe_command E) cs, stdout := stdout ?st3 @ out\<rparr>)"
      by blast
    with True c show ?thesis
      by (intro exI [of _ "[exec_echo_prefix @ c, command_output E (gdb_log st) c] @ out"])
         (simp add: feedback_records_Cons execute_command_eq py_print_def Let_def)
  next
    case False
    let ?st2 = "py_print (unsafe_prefix @ c) (py_print (exec_echo_prefix @ c) st)"
    let ?rs = "results @ [unsafe_prefix @ c]"
    from Cons.IH [OF cs, of ?rs ?st2] obtain out where
      "run_commands E cs ?rs ?st2 =
         (?rs @ feedback_records E (gdb_log ?st2) cs,
          ?st2\<lparr>gdb_log := gdb_log ?st2 @ filter (is_safe_command E) cs, stdout := stdout ?st2 @ out\<rparr>)"
      by blast
    with False c show ?thesis
      by (intro exI [of _ "[exec_echo_prefix @ c, unsafe_prefix @ c] @ out"])
         (simp add: feedback_records_Cons py_print_def Let_def)
  qed
qed

lemma run_commands_clean:
  "run_commands E raw results st =
   run_commands E (filter (\<lambda>l. l \<noteq> []) (map str_strip raw)) results st"
  by (induction raw arbitrary: results st) (simp_all add: Let_def str_strip_idem split: prod.splits)

lemma block_commands_clean: "\<forall>c\<in>set (block_commands g). str_strip c = c \<and> c \<noteq> []"
  by (auto simp: block_commands_def str_strip_idem)

lemma run_block_commands:
  "run_commands E (str_split_on 10 (str_strip g)) results st =
   run_commands E (block_commands g) results st"
proof -
  have "run_commands E (str_split_on 10 (str_strip g)) results st =
      run_commands E (block_commands (str_strip g)) results st"
    unfolding block_commands_def by (rule run_commands_clean)
  then show ?thesis by (simp only: block_commands_str_strip)
qed

lemma run_block_closed:
  "\<exists>out. run_commands E (str_split_on 10 (str_strip g)) results st =
     (results @ feedback_records E (gdb_log st) (block_commands g),
      st\<lparr>gdb_log := gdb_log st @ filter (is_safe_command E) (block_commands g),
         stdout := stdout st @ out\<rparr>)"
  using run_commands_closed [OF block_commands_clean, of E g results st]
  by (simp only: run_block_commands)

section \<open>Processing one response\<close>

lemma prints_refl: "\<exists>out. st = st\<lparr>stdout := stdout st @ out\<rparr>"
  by (intro exI [of _ "[]"]) simp

lemma prints_step:
  "\<exists>out. st' = st\<lparr>stdout := stdout st @ out\<rparr> \<Longrightarrow>
   \<exists>out. py_print l st' = st\<lparr>stdout := stdout st @ out\<rparr>"
proof -
  assume "\<exists>out. st' = st\<lparr>stdout := stdout st @ out\<rparr>"
  then obtain out where "st' = st\<lparr>stdout := stdout st @ out\<rparr>" ..
  then show ?thesis by (intro exI [of _ "out @ [l]"]) (simp add: py_print_def)
qed

lemma report_blocks_eq:
  "\<exists>out. report_blocks r st3 =
     (re_search_block (ascii ''complete'') r \<noteq> None, st3\<lparr>stdout := stdout st3 @ out\<rparr>)"
proof -
  define st4 where "st4 = (case re_search_block (ascii ''analysis'') r of
       None \<Rightarrow> st3
     | Some g \<Rightarrow> py_print (str_strip g) (py_print analysis_banner st3))"
  define st5 where "st5 = (case re_search_block (ascii ''next-step'') r of
       None \<Rightarrow> st4
     | Some g \<Rightarrow> py_print (str_strip g) (py_print next_step_banner st4))"
  have 4: "\<exists>out. st4 = st3\<lparr>stdout := stdout st3 @ out\<rparr>"
    unfolding st4_def by (cases "re_search_block (ascii ''analysis'') r")
      (simp_all add: prints_refl prints_step)
  then have 5: "\<exists>out. st5 = st3\<lparr>stdout := stdout st3 @ out\<rparr>"
    unfolding st5_def by (cases "re_search_block (ascii ''next-step'') r")
      (simp_all add: prints_step)
  then have 6: "\<exists>out. py_print l2 (py_print l1 st5) = st3\<lparr>stdout := stdout st3 @ out\<rparr>" for l1 l2
    by (intro prints_step)
  show ?thesis
  proof (cases "re_search_block (ascii ''complete'') r")
    case None
    with 5 show ?thesis
      unfolding report_blocks_def Let_def st4_def [symmetric] st5_def [symmetric] by simp
  next
    case (Some g)
    with 6 [of "str_strip g" conclusion_banner] show ?thesis
      unfolding report_blocks_def Let_def st4_def [symmetric] st5_def [symmetric] by simp
  qed
qed

lemma command_phase_none:
  "re_search_block (ascii ''gdb-command'') r = None \<Longrightarrow> command_phase E r st = (Inr (), st)"
  by (simp add: command_phase_def)

lemma command_phase_some:
  assumes "re_search_block (ascii ''gdb-command'') r = Some g"
  shows "\<exists>out. command_phase E r st =
     (case query E (results_header @
               str_join [10, 10] (feedback_records E (gdb_log st) (block_commands g)))
            (st\<lparr>gdb_log := gdb_log st @ filter (is_safe_command E) (block_commands g),
               stdout := stdout st @ out\<rparr>) of
        (Inl e, st') \<Rightarrow> (Inl e, st')
      | (Inr t, st') \<Rightarrow> (Inr (), st'))"
proof -
  let ?st1 = "py_print running_commands_banner st"
  obtain out where run: "run_commands E (str_split_on 10 (str_strip g)) [] ?st1 =
     ([] @ feedback_records E (gdb_log ?st1) (block_commands g),
      ?st1\<lparr>gdb_log := gdb_log ?st1 @ filter (is_safe_command E) (block_commands g),
         stdout := stdout ?st1 @ out\<rparr>)"
    using run_block_closed [of E g "[]" ?st1] by blast
  have stq: "?st1\<lparr>gdb_log := gdb_log ?st1 @ filter (is_safe_command E) (block_commands g),
         stdout := stdout ?st1 @ out\<rparr> =
      st\<lparr>gdb_log := gdb_log st @ filter (is_safe_command E) (block_commands g),
         stdout := stdout st @ (running_commands_banner # out)\<rparr>"
    by (simp add: py_print_def)
  have m: "gdb_log ?st1 = gdb_log st" by (simp add: py_print_def)
  from assms run show ?thesis
    unfolding command_phase_def Let_def stq m
    by (intro exI [of _ "running_commands_banner # out"]) (simp add: py_print_def)
qed


lemma process_not_str:
  "\<forall>r. response \<noteq> PStr r \<Longrightarrow>
   process_agent_response E response st =
     (Inl TypeError, st\<lparr>processed := processed st @ [response]\<rparr>)"
  by (cases response) (simp_all add: process_agent_response_def)

lemma process_no_command:
  assumes "re_search_block (ascii ''gdb-command'') r = None"
  shows "\<exists>out. process_agent_response E (PStr r) st =
     (Inr (re_search_block (ascii ''complete'') r \<noteq> None),
      st\<lparr>stdout := stdout st @ out, processed := processed st @ [PStr r]\<rparr>)"
proof -
  obtain out where "report_blocks r (st\<lparr>processed := processed st @ [PStr r]\<rparr>) =
     (re_search_block (ascii ''complete'') r \<noteq> None,
      st\<lparr>processed := processed st @ [PStr r],
         stdout := stdout (st\<lparr>processed := processed st @ [PStr r]\<rparr>) @ out\<rparr>)"
    using report_blocks_eq [of r "st\<lparr>processed := processed st @ [PStr r]\<rparr>"] by blast
  with assms show ?thesis
    by (intro exI [of _ out]) (simp add: process_agent_response_def command_phase_none)
qed

lemma process_command:
  assumes "re_search_block (ascii ''gdb-command'') r = Some g"
  shows "\<exists>out1 out2. process_agent_response E (PStr r) st =
     (case query E (results_header @
               str_join [10, 10] (feedback_records E (gdb_log st) (block_commands g)))
            (st\<lparr>gdb_log := gdb_log st @ filter (is_safe_command E) (block_commands g),
               stdout := stdout st @ out1, processed := processed st @ [PStr r]\<rparr>) of
        (Inl e, st') \<Rightarrow> (Inl e, st')
      | (Inr t, st') \<Rightarrow>
          (Inr (re_search_block (ascii ''complete'') r \<noteq> None), st'\<lparr>stdout := stdout st' @ out2\<rparr>))"
proof -
  let ?st = "st\<lparr>processed := processed st @ [PStr r]\<rparr>"
  let ?m = "results_header @ str_join [10, 10] (feedback_records E (gdb_log st) (block_commands g))"
  obtain out1 where cp: "command_phase E r ?st =
     (case query E ?m
            (?st\<lparr>gdb_log := gdb_log ?st @ filter (is_safe_command E) (block_commands g),
               stdout := stdout ?st @ out1\<rparr>) of
        (Inl e, st') \<Rightarrow> (Inl e, st')
      | (Inr t, st') \<Rightarrow> (Inr (), st'))"
    using command_phase_some [OF assms, of E ?st] by auto
  let ?stq = "st\<lparr>gdb_log := gdb_log st @ filter (is_safe_command E) (block_commands g),
               stdout := stdout st @ out1, processed := processed st @ [PStr r]\<rparr>"
  have stq: "?st\<lparr>gdb_log := gdb_log ?st @ filter (is_safe_command E) (block_commands g),
               stdout := stdout ?st @ out1\<rparr> = ?stq"
    by simp
  show ?thesis
  proof (cases "query E ?m ?stq")
    case (Pair res st')
    show ?thesis
    proof (cases res)
      case (Inl e)
      with Pair cp show ?thesis
        unfolding stq
        by (intro exI [of _ out1] exI [of _ "[]"]) (simp add: process_agent_response_def)
    next
      case (Inr t)
      obtain out2 where "report_blocks r st' =
         (re_search_block (ascii ''complete'') r \<noteq> None, st'\<lparr>stdout := stdout st' @ out2\<rparr>)"
        using report_blocks_eq [of r st'] by blast
      with Pair Inr cp show ?thesis
        unfolding stq
        by (intro exI [of _ out1] exI [of _ out2]) (simp add: process_agent_response_def)
    qed
  qed
qed

lemma query_fst_cong:
  "http_log st1 = http_log st2 \<Longrightarrow> messages st1 = messages st2 \<Longrightarrow>
   fst (query E m st1) = fst (query E m st2)"
  by (simp add: query_def add_message_user add_message_assistant Let_def
      split: http_reply.splits option.splits sum.splits exn.splits)

lemma process_command_effect:
  assumes "re_search_block (ascii ''gdb-command'') r = Some g"
    and "m = results_header @ str_join [10, 10] (feedback_records E (gdb_log st) (block_commands g))"
    and "process_agent_response E (PStr r) st = (res, st')"
  shows "gdb_log st' = gdb_log st @ filter (is_safe_command E) (block_commands g)"
    and "http_log st' = http_log st @ [messages st @ [user_message m]]"
    and "processed st' = processed st @ [PStr r]"
    and "messages st' = messages st @ user_message m #
           (case fst (query E m st) of Inr t \<Rightarrow> [model_message t] | Inl e \<Rightarrow> [])"
    and "res = (case fst (query E m st) of
                  Inl e \<Rightarrow> Inl e
                | Inr t \<Rightarrow> Inr (re_search_block (ascii ''complete'') r \<noteq> None))"
    and "\<exists>out. stdout st' = stdout st @ out"
proof -
  obtain out1 out2 where p: "process_agent_response E (PStr r) st =
     (case query E m
            (st\<lparr>gdb_log := gdb_log st @ filter (is_safe_command E) (block_commands g),
               stdout := stdout st @ out1, processed := processed st @ [PStr r]\<rparr>) of
        (Inl e, st') \<Rightarrow> (Inl e, st')
      | (Inr t, st') \<Rightarrow>
          (Inr (re_search_block (ascii ''complete'') r \<noteq> None), st'\<lparr>stdout := stdout st' @ out2\<rparr>))"
    using process_command [OF assms(1), of E st] unfolding assms(2) by blast
  let ?stq = "st\<lparr>gdb_log := gdb_log st @ filter (is_safe_command E) (block_commands g),
               stdout := stdout st @ out1, processed := processed st @ [PStr r]\<rparr>"
  have f: "fst (query E m ?stq) = fst (query E m st)"
    by (rule query_fst_cong) simp_all
  obtain qr stq' where q: "query E m ?stq = (qr, stq')" by (cases "query E m ?stq")
  with f have qr: "fst (query E m st) = qr" by simp
  have all: "gdb_log st' = gdb_log st @ filter (is_safe_command E) (block_commands g) \<and>
      http_log st' = http_log st @ [messages st @ [user_message m]] \<and>
      processed st' = processed st @ [PStr r] \<and>
      messages st' = messages st @ user_message m #
           (case qr of Inr t \<Rightarrow> [model_message t] | Inl e \<Rightarrow> []) \<and>
      res = (case qr of
                  Inl e \<Rightarrow> Inl e
                | Inr t \<Rightarrow> Inr (re_search_block (ascii ''complete'') r \<noteq> None)) \<and>
      (\<exists>out. stdout st' = stdout st @ out)"
  proof (cases qr)
    case (Inl e)
    with q have "stq' = ?stq\<lparr>messages := messages ?stq @ [user_message m],
             http_log := http_log ?stq @ [messages ?stq @ [user_message m]]\<rparr>"
      by (auto dest: query_failure)
    with p q Inl assms(3) show ?thesis by auto
  next
    case (Inr t)
    with q have "stq' = ?stq\<lparr>messages := messages ?stq @ [user_message m, model_message t],
             http_log := http_log ?stq @ [messages ?stq @ [user_message m]]\<rparr>"
      by (auto dest: query_success)
    with p q Inr assms(3) show ?thesis by auto
  qed
  from all show "gdb_log st' = gdb_log st @ filter (is_safe_command E) (block_commands g)" by blast
  from all show "http_log st' = http_log st @ [messages st @ [user_message m]]" by blast
  from all show "processed st' = processed st @ [PStr r]" by blast
  from all qr show "messages st' = messages st @ user_message m #
           (case fst (query E m st) of Inr t \<Rightarrow> [model_message t] | Inl e \<Rightarrow> [])" by blast
  from all qr show "res = (case fst (query E m st) of
                  Inl e \<Rightarrow> Inl e
                | Inr t \<Rightarrow> Inr (re_search_block (ascii ''complete'') r \<noteq> None))" by blast
  from all show "\<exists>out. stdout st' = stdout st @ out" by blast
qed

lemma process_no_command_effect:
  assumes "re_search_block (ascii ''gdb-command'') r = None"
    and "process_agent_response E (PStr r) st = (res, st')"
  shows "res = Inr (re_search_block (ascii ''complete'') r \<noteq> None)"
    and "\<exists>out. st' = st\<lparr>stdout := stdout st @ out, processed := processed st @ [PStr r]\<rparr>"
  using process_no_command [OF assms(1), of E st] assms(2) by auto

lemma process_processed:
  "process_agent_response E response st = (res, st') \<Longrightarrow> processed st' = processed st @ [response]"
proof (cases "\<exists>r. response = PStr r")
  case False
  assume "process_agent_response E response st = (res, st')"
  with False show ?thesis by (auto simp: process_not_str)
next
  case True
  assume a: "process_agent_response E response st = (res, st')"
  from True obtain r where r: "response = PStr r" ..
  show ?thesis
  proof (cases "re_search_block (ascii ''gdb-command'') r")
    case None
    from process_no_command_effect(2) [OF None a [unfolded r]] r show ?thesis by auto
  next
    case (Some g)
    from process_command_effect(3) [OF Some refl a [unfolded r]] r show ?thesis by simp
  qed
qed

lemma process_result:
  assumes "process_agent_response E response st = (Inr b, st')"
  shows "b = contains_block (ascii ''complete'') response"
proof (cases "\<exists>r. response = PStr r")
  case False
  with assms show ?thesis by (auto simp: process_not_str)
next
  case True
  then obtain r where r: "response = PStr r" ..
  show ?thesis
  proof (cases "re_search_block (ascii ''gdb-command'') r")
    case None
    from process_no_command_effect(1) [OF None assms [unfolded r]] r show ?thesis
      by (simp add: contains_block_def)
  next
    case (Some g)
    from process_command_effect(5) [OF Some refl assms [unfolded r]] r show ?thesis
      by (simp add: contains_block_def split: sum.splits)
  qed
qed

lemma process_messages:
  assumes "process_agent_response E response st = (res, st')"
  shows "\<exists>ms. messages st' = messages st @ ms"
proof (cases "\<exists>r. response = PStr r")
  case False
  with assms show ?thesis by (auto simp: process_not_str)
next
  case True
  then obtain r where r: "response = PStr r" ..
  show ?thesis
  proof (cases "re_search_block (ascii ''gdb-command'') r")
    case None
    from process_no_command_effect(2) [OF None assms [unfolded r]] show ?thesis by auto
  next
    case (Some g)
    from process_command_effect(4) [OF Some refl assms [unfolded r]] show ?thesis by blast
  qed
qed

lemma process_stdout:
  assumes "process_agent_response E response st = (res, st')"
  shows "\<exists>out. stdout st' = stdout st @ out"
proof (cases "\<exists>r. response = PStr r")
  case False
  with assms show ?thesis by (auto simp: process_not_str)
next
  case True
  then obtain r where r: "response = PStr r" ..
  show ?thesis
  proof (cases "re_search_block (ascii ''gdb-command'') r")
    case None
    from process_no_command_effect(2) [OF None assms [unfolded r]] show ?thesis by auto
  next
    case (Some g)
    from process_command_effect(6) [OF Some refl assms [unfolded r]] show ?thesis by blast
  qed
qed

section \<open>The agent loop\<close>

declare agent_loop.simps [simp del]

lemma agent_loop_exit:
  "\<not> i < max_iterations \<Longrightarrow> agent_loop E req i st = (Inr (i, False), st)"
  by (subst agent_loop.simps) simp

lemma agent_loop_step:
  "i < max_iterations \<Longrightarrow>
   agent_loop E req i st =
     (case obtain_response E req (Suc i) (py_print (step_banner (Suc i)) st) of
        (Inl e, st2) \<Rightarrow> (Inl e, st2)
      | (Inr response, st2) \<Rightarrow>
          (case process_agent_response E response st2 of
             (Inl e, st3) \<Rightarrow> (Inl e, st3)
           | (Inr True, st3) \<Rightarrow> (Inr (Suc i, True), st3)
           | (Inr False, st3) \<Rightarrow>
               agent_loop E req (Suc i)
                 (if max_iterations \<le> Suc i then py_print max_reached_notice st3 else st3)))"
  by (subst agent_loop.simps) (simp add: Let_def)



lemma split_sep_line:
  "sep \<notin> set l \<Longrightarrow> split_sep sep cur (l @ sep # rest) = (cur @ l) # split_sep sep [] rest"
  by (induction l arbitrary: cur) auto

lemma split_sep_last_line: "sep \<notin> set l \<Longrightarrow> split_sep sep cur l = [cur @ l]"
  by (induction l arbitrary: cur) auto

lemma str_split_on_line:
  "sep \<notin> set l \<Longrightarrow> str_split_on sep (l @ sep # rest) = l # str_split_on sep rest"
  by (simp add: str_split_on_def split_sep_line)

lemma str_split_on_last_line: "sep \<notin> set l \<Longrightarrow> str_split_on sep l = [l]"
  by (simp add: str_split_on_def split_sep_last_line)

lemma feedback_records_length: "length (feedback_records E log cs) = length cs"
  by (simp add: feedback_records_def)

lemma feedback_records_nth:
  "i < length cs \<Longrightarrow> feedback_records E log cs ! i = command_record E log cs i"
  by (simp add: feedback_records_def)

lemma block_commands_blank:
  assumes "\<forall>l\<in>set (str_split_on 10 g). \<forall>c\<in>set l. is_space c"
  shows "block_commands g = []"
proof -
  from assms have "\<forall>l\<in>set (str_split_on 10 g). str_strip l = []"
    by (simp add: str_strip_Nil_iff)
  then show ?thesis by (simp add: block_commands_def filter_empty_conv)
qed

section \<open>What the command loop prints\<close>

lemma command_echo_Nil: "command_echo E log [] = []"
  by (simp add: command_echo_def)

lemma command_echo_pair_Suc:
  "command_echo_pair E log (c # cs) (Suc i) =
   command_echo_pair E (if is_safe_command E c then log @ [c] else log) cs i"
  by (simp add: command_echo_pair_def)

lemma command_echo_Cons:
  "command_echo E log (c # cs) =
     (if is_safe_command E c
      then (exec_echo_prefix @ c) # command_output E log c # command_echo E (log @ [c]) cs
      else (exec_echo_prefix @ c) # (unsafe_prefix @ c) # command_echo E log cs)"
proof -
  have "[0..<Suc (length cs)] = 0 # map Suc [0..<length cs]"
    by (simp only: map_Suc_upt upt_conv_Cons [OF zero_less_Suc])
  moreover have "command_echo_pair E log (c # cs) 0 =
      [exec_echo_prefix @ c,
       if is_safe_command E c then command_output E log c else unsafe_prefix @ c]"
    by (simp add: command_echo_pair_def)
  ultimately show ?thesis
    by (simp add: command_echo_def comp_def command_echo_pair_Suc del: upt_Suc)
qed

lemma run_commands_stdout:
  assumes "\<forall>c\<in>set cs. str_strip c = c \<and> c \<noteq> []"
  shows "stdout (snd (run_commands E cs results st)) = stdout st @ command_echo E (gdb_log st) cs"
  using assms
proof (induction cs arbitrary: results st)
  case Nil
  show ?case by (simp add: command_echo_Nil)
next
  case (Cons c cs)
  then have c: "str_strip c = c" "c \<noteq> []" and cs: "\<forall>c\<in>set cs. str_strip c = c \<and> c \<noteq> []"
    by simp_all
  show ?case
  proof (cases "is_safe_command E c")
    case True
    with c Cons.IH [OF cs] show ?thesis
      by (simp add: command_echo_Cons execute_command_eq py_print_def Let_def)
  next
    case False
    with c Cons.IH [OF cs] show ?thesis
      by (simp add: command_echo_Cons py_print_def Let_def)
  qed
qed

lemma lazy_until_fence_plain:
  "96 \<notin> set g \<Longrightarrow> lazy_until_fence (g @ fence @ rest) = Some g"
  by (induction g) (auto simp: fence_def)

lemma re_search_block_at_start:
  assumes "96 \<notin> set g"
  shows "re_search_block tag (fence @ tag @ [10] @ g @ fence @ rest) = Some g"
proof -
  have "match_block_here tag (fence @ tag @ [10] @ g @ fence @ rest) = Some g"
    using lazy_until_fence_plain [OF assms, of rest] by (simp add: match_block_here_def)
  then show ?thesis by (simp add: fence_def)
qed

lemma query_keeps:
  "stdout (snd (query E m st)) = stdout st" "gdb_log (snd (query E m st)) = gdb_log st"
  by (simp_all add: query_effect split: sum.splits)

lemma command_phase_block:
  assumes "re_search_block (ascii ''gdb-command'') r = Some g"
  shows "command_phase E r st =
     (case run_commands E (block_commands g) [] (py_print running_commands_banner st) of
        (results, st2) \<Rightarrow>
          (case query E (results_header @ str_join [10, 10] results) st2 of
             (Inl e, st3) \<Rightarrow> (Inl e, st3)
           | (Inr sent, st3) \<Rightarrow> (Inr (), st3)))"
  using assms unfolding command_phase_def Let_def run_block_commands by simp

lemma command_phase_output:
  assumes "re_search_block (ascii ''gdb-command'') r = Some g"
    and "command_phase E r st = (res, st')"
  shows "stdout st' =
      stdout st @ running_commands_banner # command_echo E (gdb_log st) (block_commands g)"
    and "gdb_log st' = gdb_log st @ filter (is_safe_command E) (block_commands g)"
proof -
  let ?st1 = "py_print running_commands_banner st"
  let ?cs = "block_commands g"
  obtain results st2 where rc: "run_commands E ?cs [] ?st1 = (results, st2)"
    by (cases "run_commands E ?cs [] ?st1")
  obtain out where "run_commands E ?cs [] ?st1 =
     ([] @ feedback_records E (gdb_log ?st1) ?cs,
      ?st1\<lparr>gdb_log := gdb_log ?st1 @ filter (is_safe_command E) ?cs,
         stdout := stdout ?st1 @ out\<rparr>)"
    using run_commands_closed [OF block_commands_clean, of E g "[]" ?st1] by blast
  with rc have g2: "gdb_log st2 = gdb_log st @ filter (is_safe_command E) ?cs"
    by (auto simp: py_print_def)
  have "stdout (snd (run_commands E ?cs [] ?st1)) = stdout ?st1 @ command_echo E (gdb_log ?st1) ?cs"
    using run_commands_stdout [OF block_commands_clean, of E g "[]" ?st1] .
  with rc have s2: "stdout st2 =
      stdout st @ running_commands_banner # command_echo E (gdb_log st) ?cs"
    by (simp add: py_print_def)
  let ?q = "query E (results_header @ str_join [10, 10] results) st2"
  from command_phase_block [OF assms(1), of E st] rc assms(2)
  have "st' = snd ?q"
    by (cases ?q) (auto split: sum.splits)
  with s2 g2 show "stdout st' =
      stdout st @ running_commands_banner # command_echo E (gdb_log st) (block_commands g)"
    and "gdb_log st' = gdb_log st @ filter (is_safe_command E) (block_commands g)"
    by (simp_all add: query_keeps)
qed

section \<open>Parsing a command block\<close>

text \<open>
  Claim C9.  For every response in which the search finds a \<open>gdb-command\<close> block, the
  command phase of \<open>_process_agent_response\<close> runs its loop over the command sequence
  of the enclosed text: the text split at the line feeds, blank lines dropped, the
  remaining lines trimmed, in their original order.  Every command of the sequence is
  non-empty and trimmed; the phase prints an echo for exactly these commands, in this
  order, and the debugger receives the safe ones among them, in this order.  A
  response that begins with a block of three lines is parsed to the trimmed non-blank
  ones among them, in order.
\<close>

theorem command_block_lines:
  assumes "re_search_block (ascii ''gdb-command'') r = Some g"
    and "command_phase E r st = (res, st')"
  shows "command_phase E r st =
       (case run_commands E (block_commands g) [] (py_print running_commands_banner st) of
          (results, st2) \<Rightarrow>
            (case query E (results_header @ str_join [10, 10] results) st2 of
               (Inl e, st3) \<Rightarrow> (Inl e, st3)
             | (Inr sent, st3) \<Rightarrow> (Inr (), st3))) \<and>
     block_commands g = filter (\<lambda>l. l \<noteq> []) (map str_strip (str_split_on 10 g)) \<and>
     (\<forall>c\<in>set (block_commands g). c \<noteq> [] \<and> str_strip c = c) \<and>
     stdout st' =
       stdout st @ running_commands_banner # command_echo E (gdb_log st) (block_commands g) \<and>
     gdb_log st' = gdb_log st @ filter (is_safe_command E) (block_commands g) \<and>
     (10 \<notin> set l1 \<and> 10 \<notin> set l2 \<and> 10 \<notin> set l3 \<and> 96 \<notin> set (l1 @ l2 @ l3) \<longrightarrow>
        re_search_block (ascii ''gdb-command'')
            (fence @ ascii ''gdb-command'' @ [10] @ l1 @ [10] @ l2 @ [10] @ l3 @ fence @ rest) =
          Some (l1 @ [10] @ l2 @ [10] @ l3) \<and>
        block_commands (l1 @ [10] @ l2 @ [10] @ l3) =
          filter (\<lambda>c. c \<noteq> []) [str_strip l1, str_strip l2, str_strip l3])"
proof (intro conjI impI)
  show "command_phase E r st =
       (case run_commands E (block_commands g) [] (py_print running_commands_banner st) of
          (results, st2) \<Rightarrow>
            (case query E (results_header @ str_join [10, 10] results) st2 of
               (Inl e, st3) \<Rightarrow> (Inl e, st3)
             | (Inr sent, st3) \<Rightarrow> (Inr (), st3)))"
    using assms(1) by (rule command_phase_block)
  show "block_commands g = filter (\<lambda>l. l \<noteq> []) (map str_strip (str_split_on 10 g))"
    by (simp add: block_commands_def)
  show "\<forall>c\<in>set (block_commands g). c \<noteq> [] \<and> str_strip c = c"
    using block_commands_clean [of g] by blast
  show "stdout st' =
       stdout st @ running_commands_banner # command_echo E (gdb_log st) (block_commands g)"
    using assms by (rule command_phase_output(1))
  show "gdb_log st' = gdb_log st @ filter (is_safe_command E) (block_commands g)"
    using assms by (rule command_phase_output(2))
next
  assume a: "10 \<notin> set l1 \<and> 10 \<notin> set l2 \<and> 10 \<notin> set l3 \<and> 96 \<notin> set (l1 @ l2 @ l3)"
  then have "96 \<notin> set (l1 @ [10] @ l2 @ [10] @ l3)" by simp
  from re_search_block_at_start [OF this, of "ascii ''gdb-command''" rest]
  show "re_search_block (ascii ''gdb-command'')
            (fence @ ascii ''gdb-command'' @ [10] @ l1 @ [10] @ l2 @ [10] @ l3 @ fence @ rest) =
          Some (l1 @ [10] @ l2 @ [10] @ l3)"
    by simp
next
  assume "10 \<notin> set l1 \<and> 10 \<notin> set l2 \<and> 10 \<notin> set l3 \<and> 96 \<notin> set (l1 @ l2 @ l3)"
  then have "str_split_on 10 (l1 @ 10 # l2 @ 10 # l3) = [l1, l2, l3]"
    by (simp add: str_split_on_line str_split_on_last_line)
  then show "block_commands (l1 @ [10] @ l2 @ [10] @ l3) =
        filter (\<lambda>c. c \<noteq> []) [str_strip l1, str_strip l2, str_strip l3]"
    by (simp add: block_commands_def)
qed

section \<open>The role mapping\<close>

text \<open>
  Claim C8, amended.  The mapping that \<open>add_message\<close> applies to the role is total:
  every role string gets exactly one label, \<open>model\<close> for \<open>assistant\<close> and \<open>user\<close> for
  every other string.  It is idempotent on every role but \<open>assistant\<close>: the label
  \<open>model\<close> is itself mapped to \<open>user\<close>.
\<close>

theorem gemini_role_idempotent_off_assistant:
  "role (last (messages (add_message r c st))) = gemini_role r \<and>
   gemini_role r \<in> {ascii ''user'', ascii ''model''} \<and>
   (gemini_role r = ascii ''model'' \<longleftrightarrow> r = ascii ''assistant'') \<and>
   (r \<noteq> ascii ''assistant'' \<longrightarrow> gemini_role (gemini_role r) = gemini_role r) \<and>
   gemini_role (ascii ''model'') = ascii ''user''"
  by (simp add: add_message_def gemini_role_def ascii_def)

theorem gemini_role_idempotent_off_assistant_witness:
  "ascii ''user'' \<noteq> ascii ''assistant'' \<and>
   gemini_role (gemini_role (ascii ''user'')) = gemini_role (ascii ''user'') \<and>
   gemini_role (ascii ''user'') = ascii ''user''"
proof -
  have h: "ascii ''user'' \<noteq> ascii ''assistant''" by (simp add: ascii_def)
  with gemini_role_idempotent_off_assistant [of "ascii ''user''" PNone empty_state]
  show ?thesis by (simp add: gemini_role_user)
qed

theorem gemini_role_not_idempotent:
  "gemini_role (gemini_role (ascii ''assistant'')) \<noteq> gemini_role (ascii ''assistant'')"
  by (simp add: gemini_role_def ascii_def)

section \<open>Failures of a query\<close>

text \<open>
  What \<open>query\<close> guarantees: a call that returns has appended the prompt with role
  \<open>user\<close> and the returned text with role \<open>model\<close>, a call that raises has appended
  the prompt only; and the message of the error raised for a status other than 200, or
  for a \<open>KeyError\<close> or \<open>IndexError\<close> of the extraction, ends with the response text,
  respectively with \<open>str(result)\<close>.
\<close>

lemma query_history:
  "query E m st = (res, st') \<Longrightarrow>
   messages st' = messages st @ user_message m #
     (case res of Inr t \<Rightarrow> [model_message t] | Inl e \<Rightarrow> [])"
  by (cases res) (auto dest: query_failure query_success)

lemma query_returns_text:
  "query E m st = (Inr t, st') \<Longrightarrow>
   \<exists>body result. requests_post E (http_log st) (messages st @ [user_message m]) =
       Response 200 body (Some result) \<and> extract_text result = Inr t"
  by (rule query_success_reply)

lemma query_parse_error:
  assumes "requests_post E (http_log st) (messages st @ [user_message m]) =
      Response 200 body (Some result)"
    and "extract_text result = Inl (KeyError e) \<or> extract_text result = Inl (IndexError e)"
  shows "fst (query E m st) =
      Inl (Exception (parse_error_prefix @ e @ ascii '' - '' @ str_of E result))"
  using assms by (auto simp: query_def add_message_user Let_def)

text \<open>
  Claim C5, where the code departs from it.  A response with status 200 whose body is not
  JSON makes \<open>response.json()\<close> raise, outside the \<open>try\<close>; a body such as
  \<open>{"candidates": null}\<close> makes the extraction raise \<open>TypeError\<close>, which the \<open>except\<close>
  clause does not list.  Both exceptions leave \<open>query\<close> as they are, with the
  interpreter's or the decoder's message and not the payload; the history holds the
  prompt and nothing else.
\<close>

theorem query_uncaught_errors:
  "query (const_env (Response 200 body None) out) m st =
     (Inl JSONDecodeError,
      st\<lparr>messages := messages st @ [user_message m],
         http_log := http_log st @ [messages st @ [user_message m]]\<rparr>) \<and>
   query (const_env (Response 200 body (Some (PDict [(ascii ''candidates'', PNone)]))) out) m st =
     (Inl TypeError,
      st\<lparr>messages := messages st @ [user_message m],
         http_log := http_log st @ [messages st @ [user_message m]]\<rparr>)"
  by (simp add: query_def const_env_def add_message_user Let_def extract_text_def bind_exn_def)

section \<open>Executing a command block\<close>

lemma agent_loop_continue:
  assumes "i < max_iterations"
    and "obtain_response E req (Suc i) (py_print (step_banner (Suc i)) st0) = (Inr response, st)"
    and "process_agent_response E response st = (res, st')"
  shows "agent_loop E req i st0 =
     (case res of
        Inl e \<Rightarrow> (Inl e, st')
      | Inr True \<Rightarrow> (Inr (Suc i, True), st')
      | Inr False \<Rightarrow>
          agent_loop E req (Suc i)
            (if max_iterations \<le> Suc i then py_print max_reached_notice st' else st'))"
  using assms by (simp add: agent_loop_step split: sum.splits bool.splits)

text \<open>
  Claim C6.  For every processed response that contains a \<open>gdb-command\<close> block: the
  commands of the block are taken in order; a safe command is executed and recorded
  with its result, an unsafe one is recorded as rejected and not executed; the records
  are joined into one results string, and exactly one request carrying it is sent to
  the model.  The send belongs to the iteration that processed the response: when the
  loop goes on, it goes on with the next value of \<open>iteration\<close>.
\<close>

theorem command_block_feedback:
  assumes "re_search_block (ascii ''gdb-command'') r = Some g"
    and "process_agent_response E (PStr r) st = (res, st')"
    and "cs = block_commands g"
    and "records = feedback_records E (gdb_log st) cs"
  shows "length records = length cs \<and>
     (\<forall>i<length cs. records ! i =
        (if is_safe_command E (cs ! i) then
           record_cmd_prefix @ cs ! i @ record_result_infix @
           command_output E (gdb_log st @ filter (is_safe_command E) (take i cs)) (cs ! i)
         else unsafe_prefix @ cs ! i)) \<and>
     gdb_log st' = gdb_log st @ filter (is_safe_command E) cs \<and>
     http_log st' =
       http_log st @ [messages st @ [user_message (results_header @ str_join [10, 10] records)]] \<and>
     (i < max_iterations \<and>
      obtain_response E req (Suc i) (py_print (step_banner (Suc i)) st0) = (Inr (PStr r), st) \<and>
      res = Inr False \<longrightarrow>
        agent_loop E req i st0 =
          agent_loop E req (Suc i)
            (if max_iterations \<le> Suc i then py_print max_reached_notice st' else st'))"
proof (intro conjI allI impI)
  show "length records = length cs"
    by (simp add: assms(4) feedback_records_length)
next
  fix k assume "k < length cs"
  then show "records ! k =
        (if is_safe_command E (cs ! k) then
           record_cmd_prefix @ cs ! k @ record_result_infix @
           command_output E (gdb_log st @ filter (is_safe_command E) (take k cs)) (cs ! k)
         else unsafe_prefix @ cs ! k)"
    by (simp add: assms(4) feedback_records_nth command_record_def)
next
  show "gdb_log st' = gdb_log st @ filter (is_safe_command E) cs"
    using process_command_effect(1) [OF assms(1) refl assms(2)] assms(3) by simp
next
  show "http_log st' =
       http_log st @ [messages st @ [user_message (results_header @ str_join [10, 10] records)]]"
    using process_command_effect(2) [OF assms(1) refl assms(2)] assms(3,4) by simp
next
  assume "i < max_iterations \<and>
      obtain_response E req (Suc i) (py_print (step_banner (Suc i)) st0) = (Inr (PStr r), st) \<and>
      res = Inr False"
  then show "agent_loop E req i st0 =
          agent_loop E req (Suc i)
            (if max_iterations \<le> Suc i then py_print max_reached_notice st' else st')"
    using agent_loop_continue [of i E req st0 "PStr r" st res st'] assms(2) by simp
qed

lemma query_error_kind:
  "query E m st = (Inl e, st') \<Longrightarrow> e \<noteq> IndexError x \<and> e \<noteq> KeyError x"
  by (auto simp: query_def add_message_user add_message_assistant Let_def
      split: http_reply.splits option.splits sum.splits exn.splits if_splits)

lemma process_error_kind:
  assumes "process_agent_response E response st = (Inl e, st')"
  shows "e \<noteq> IndexError x"
proof (cases "\<exists>r. response = PStr r")
  case False
  with assms show ?thesis by (auto simp: process_not_str)
next
  case True
  then obtain r where r: "response = PStr r" ..
  show ?thesis
  proof (cases "re_search_block (ascii ''gdb-command'') r")
    case None
    from process_no_command_effect(1) [OF None assms [unfolded r]] show ?thesis by simp
  next
    case (Some g)
    let ?m = "results_header @ str_join [10, 10] (feedback_records E (gdb_log st) (block_commands g))"
    from process_command_effect(5) [OF Some refl assms [unfolded r]]
    have "fst (query E ?m st) = Inl e" by (simp split: sum.splits)
    then have "query E ?m st = (Inl e, snd (query E ?m st))" by (cases "query E ?m st") simp
    then show ?thesis using query_error_kind by blast
  qed
qed

lemma agent_loop_no_index_error:
  assumes "i = 0 \<or> messages st \<noteq> []"
  shows "fst (agent_loop E req i st) \<noteq> Inl (IndexError x)"
  using assms
proof (induction E req i st rule: agent_loop.induct)
  case (1 E req i st)
  show ?case
  proof (cases "i < max_iterations")
    case False
    then show ?thesis by (simp add: agent_loop_exit)
  next
    case True
    let ?st1 = "py_print (step_banner (Suc i)) st"
    obtain res2 st2 where o: "obtain_response E req (Suc i) ?st1 = (res2, st2)"
      by (cases "obtain_response E req (Suc i) ?st1")
    show ?thesis
    proof (cases res2)
      case (Inl e)
      have "e \<noteq> IndexError x"
      proof (cases "i = 0")
        case True
        with o Inl have "query E req ?st1 = (Inl e, st2)" by (simp add: obtain_response_def)
        then show ?thesis using query_error_kind by blast
      next
        case False
        with "1.prems" o Inl show ?thesis
          by (auto simp: obtain_response_def last_message_text_def py_print_def)
      qed
      with True o Inl show ?thesis by (simp add: agent_loop_step)
    next
      case (Inr response)
      have ne2: "messages st2 \<noteq> []"
      proof (cases "i = 0")
        case True
        with o Inr have "query E req ?st1 = (Inr response, st2)" by (simp add: obtain_response_def)
        then show ?thesis by (auto dest: query_success)
      next
        case False
        with "1.prems" o Inr show ?thesis
          by (auto simp: obtain_response_def py_print_def)
      qed
      obtain res3 st3 where p: "process_agent_response E response st2 = (res3, st3)"
        by (cases "process_agent_response E response st2")
      from process_messages [OF p] ne2 have ne3: "messages st3 \<noteq> []" by auto
      show ?thesis
      proof (cases res3)
        case (Inl e)
        with p have "e \<noteq> IndexError x" using process_error_kind by blast
        with True o Inr p Inl show ?thesis by (simp add: agent_loop_step)
      next
        case b: (Inr b)
        show ?thesis
        proof (cases b)
          case True
          with \<open>i < max_iterations\<close> o Inr p b show ?thesis by (simp add: agent_loop_step)
        next
          case False
          let ?st4 = "if max_iterations \<le> Suc i then py_print max_reached_notice st3 else st3"
          from ne3 have "messages ?st4 \<noteq> []" by (simp add: py_print_def)
          then have "fst (agent_loop E req (Suc i) ?st4) \<noteq> Inl (IndexError x)"
            using "1.IH" [of "Suc i" ?st1 res2 st2 response res3 st3 b]
              \<open>i < max_iterations\<close> o Inr p b False by simp
          with \<open>i < max_iterations\<close> o Inr p b False show ?thesis
            by (simp add: agent_loop_step)
        qed
      qed
    qed
  qed
qed

section \<open>Where the response of an iteration comes from\<close>

text \<open>
  Claim C7.  In every iteration after the first, the controller sends no request to
  obtain the text it processes: the response is the content of the last message of the
  history, and obtaining it changes nothing.  The history is never empty when it is
  read, in any run that starts with \<open>iteration = 0\<close>.
\<close>

theorem later_iteration_reuses_last_message:
  "(1 < k \<and> messages st \<noteq> [] \<longrightarrow>
      obtain_response E req k st = (Inr (content (last (messages st))), st)) \<and>
   (0 < i \<and> i < max_iterations \<and> messages st \<noteq> [] \<longrightarrow>
      agent_loop E req i st =
        (case process_agent_response E (content (last (messages st)))
                (py_print (step_banner (Suc i)) st) of
           (Inl e, st3) \<Rightarrow> (Inl e, st3)
         | (Inr True, st3) \<Rightarrow> (Inr (Suc i, True), st3)
         | (Inr False, st3) \<Rightarrow>
             agent_loop E req (Suc i)
               (if max_iterations \<le> Suc i then py_print max_reached_notice st3 else st3))) \<and>
   fst (agent_loop E req 0 st0) \<noteq> Inl (IndexError x)"
proof (intro conjI impI)
  assume "1 < k \<and> messages st \<noteq> []"
  then show "obtain_response E req k st = (Inr (content (last (messages st))), st)"
    by (simp add: obtain_response_def last_message_text_def)
next
  assume a: "0 < i \<and> i < max_iterations \<and> messages st \<noteq> []"
  then have "obtain_response E req (Suc i) (py_print (step_banner (Suc i)) st) =
      (Inr (content (last (messages st))), py_print (step_banner (Suc i)) st)"
    by (simp add: obtain_response_def last_message_text_def py_print_def)
  with a show "agent_loop E req i st =
        (case process_agent_response E (content (last (messages st)))
                (py_print (step_banner (Suc i)) st) of
           (Inl e, st3) \<Rightarrow> (Inl e, st3)
         | (Inr True, st3) \<Rightarrow> (Inr (Suc i, True), st3)
         | (Inr False, st3) \<Rightarrow>
             agent_loop E req (Suc i)
               (if max_iterations \<le> Suc i then py_print max_reached_notice st3 else st3))"
    by (simp add: agent_loop_step)
next
  show "fst (agent_loop E req 0 st0) \<noteq> Inl (IndexError x)"
    by (rule agent_loop_no_index_error) simp
qed

section \<open>A response with a command block and a complete block\<close>

text \<open>
  Claim C4.  For every response that contains both a \<open>gdb-command\<close> block and a
  \<open>complete\<close> block, processing executes the safe commands of the block and sends the
  results to the model; only when that send has returned does processing report
  completion, and the loop then ends with the state that processing left: no further
  iteration runs.  (When the send raises, its exception ends the loop instead.)
\<close>

theorem command_and_complete_block:
  assumes "re_search_block (ascii ''gdb-command'') r = Some g"
    and "re_search_block (ascii ''complete'') r = Some c"
    and "process_agent_response E (PStr r) st = (res, st')"
    and "m = results_header @ str_join [10, 10] (feedback_records E (gdb_log st) (block_commands g))"
  shows "gdb_log st' = gdb_log st @ filter (is_safe_command E) (block_commands g) \<and>
     http_log st' = http_log st @ [messages st @ [user_message m]] \<and>
     processed st' = processed st @ [PStr r] \<and>
     res = (case fst (query E m st) of Inl e \<Rightarrow> Inl e | Inr t \<Rightarrow> Inr True) \<and>
     (i < max_iterations \<and>
      obtain_response E req (Suc i) (py_print (step_banner (Suc i)) st0) = (Inr (PStr r), st) \<longrightarrow>
        agent_loop E req i st0 =
          (case res of Inl e \<Rightarrow> (Inl e, st') | Inr b \<Rightarrow> (Inr (Suc i, True), st')))"
proof (intro conjI impI)
  show "gdb_log st' = gdb_log st @ filter (is_safe_command E) (block_commands g)"
    using process_command_effect(1) [OF assms(1) refl assms(3)] .
  show "http_log st' = http_log st @ [messages st @ [user_message m]]"
    using process_command_effect(2) [OF assms(1) assms(4) assms(3)] .
  show "processed st' = processed st @ [PStr r]"
    using process_command_effect(3) [OF assms(1) refl assms(3)] .
  show res: "res = (case fst (query E m st) of Inl e \<Rightarrow> Inl e | Inr t \<Rightarrow> Inr True)"
    using process_command_effect(5) [OF assms(1) assms(4) assms(3)] assms(2)
    by (simp split: sum.splits)
  assume "i < max_iterations \<and>
      obtain_response E req (Suc i) (py_print (step_banner (Suc i)) st0) = (Inr (PStr r), st)"
  then have "agent_loop E req i st0 =
     (case res of
        Inl e \<Rightarrow> (Inl e, st')
      | Inr True \<Rightarrow> (Inr (Suc i, True), st')
      | Inr False \<Rightarrow>
          agent_loop E req (Suc i)
            (if max_iterations \<le> Suc i then py_print max_reached_notice st' else st'))"
    using agent_loop_continue [of i E req st0 "PStr r" st res st'] assms(3) by simp
  with res show "agent_loop E req i st0 =
          (case res of Inl e \<Rightarrow> (Inl e, st') | Inr b \<Rightarrow> (Inr (Suc i, True), st'))"
    by (simp split: sum.splits)
qed

section \<open>A command block without commands\<close>

text \<open>
  Claim C10.  For every response whose \<open>gdb-command\<close> block holds only blank or
  whitespace-only lines, no command is executed, and exactly one request is still sent
  to the model; its prompt is the results header followed by an empty record section.
\<close>

theorem blank_command_block_feedback:
  assumes "re_search_block (ascii ''gdb-command'') r = Some g"
    and "\<forall>l\<in>set (str_split_on 10 g). \<forall>c\<in>set l. is_space c"
    and "process_agent_response E (PStr r) st = (res, st')"
  shows "block_commands g = [] \<and> gdb_log st' = gdb_log st \<and>
     http_log st' = http_log st @ [messages st @ [user_message (results_header @ [])]]"
proof -
  have b: "block_commands g = []" using assms(2) by (rule block_commands_blank)
  from process_command_effect(1) [OF assms(1) refl assms(3)] b
  have 1: "gdb_log st' = gdb_log st" by simp
  from process_command_effect(2) [OF assms(1) refl assms(3)] b
  have 2: "http_log st' = http_log st @ [messages st @ [user_message (results_header @ [])]]"
    by (simp add: feedback_records_Nil)
  from b 1 2 show ?thesis by blast
qed

section \<open>How a run ends\<close>

lemma max_iterations_pos: "0 < max_iterations"
  by (simp add: max_iterations_def)


section \<open>A first response with a complete block\<close>

text \<open>
  Claim C3, amended.  For every agent run whose first model response contains a
  \<open>complete\<close> block, that response is the only one processed and the run ends in its
  first iteration.  If the response contains no \<open>gdb-command\<close> block, the run ends
  completed, no command is executed and no further request is sent.  If it contains
  one, the safe commands of that block are executed, in order, the results are sent
  in a second request, and the run ends completed unless that send raises, in which
  case it ends by the exception of the send.
\<close>

theorem first_response_complete:
  assumes "query E req (py_print (step_banner 1) st) = (Inr (PStr r), st2)"
    and "re_search_block (ascii ''complete'') r = Some c"
    and "run_agent E req st = (res, st')"
    and "m = results_header @
           str_join [10, 10] (feedback_records E (gdb_log st) (block_commands g))"
  shows "processed st' = processed st @ [PStr r] \<and>
     ((\<exists>e. res = Inl e) \<or> res = Inr (1, True)) \<and>
     (re_search_block (ascii ''gdb-command'') r = None \<longrightarrow>
        res = Inr (1, True) \<and> gdb_log st' = gdb_log st \<and>
        http_log st' = http_log st @ [messages st @ [user_message req]]) \<and>
     (re_search_block (ascii ''gdb-command'') r = Some g \<longrightarrow>
        gdb_log st' = gdb_log st @ filter (is_safe_command E) (block_commands g) \<and>
        http_log st' =
          http_log st @
          [messages st @ [user_message req],
           messages st @ [user_message req, model_message (PStr r), user_message m]] \<and>
        res = (case fst (query E m st2) of Inl e \<Rightarrow> Inl e | Inr t \<Rightarrow> Inr (1, True)))"
proof -
  obtain res3 st3 where p: "process_agent_response E (PStr r) st2 = (res3, st3)"
    by (cases "process_agent_response E (PStr r) st2")
  have o: "obtain_response E req (Suc 0) (py_print (step_banner (Suc 0)) st) = (Inr (PStr r), st2)"
    using assms(1) by (simp add: obtain_response_def)
  have loop: "agent_loop E req 0 st =
     (case res3 of
        Inl e \<Rightarrow> (Inl e, st3)
      | Inr True \<Rightarrow> (Inr (Suc 0, True), st3)
      | Inr False \<Rightarrow>
          agent_loop E req (Suc 0)
            (if max_iterations \<le> Suc 0 then py_print max_reached_notice st3 else st3))"
    using agent_loop_continue [OF max_iterations_pos o p] .
  have res3: "(\<exists>e. res3 = Inl e) \<or> res3 = Inr True"
  proof (cases res3)
    case (Inl e)
    then show ?thesis by simp
  next
    case (Inr b)
    with p have "b = contains_block (ascii ''complete'') (PStr r)"
      using process_result by blast
    with Inr assms(2) show ?thesis by (simp add: contains_block_def)
  qed
  have st2: "st2 = (py_print (step_banner 1) st)\<lparr>
      messages := messages st @ [user_message req, model_message (PStr r)],
      http_log := http_log st @ [messages st @ [user_message req]]\<rparr>"
    using query_success [OF assms(1)] by (simp add: py_print_def)
  have pr3: "processed st3 = processed st @ [PStr r]"
    using process_processed [OF p] st2 by (simp add: py_print_def)
  from res3 loop assms(3) have res: "res = (case res3 of Inl e \<Rightarrow> Inl e | Inr b \<Rightarrow> Inr (1, True))"
    and st': "processed st' = processed st3" "gdb_log st' = gdb_log st3" "http_log st' = http_log st3"
    by (auto simp: run_agent_def py_print_def)
  have nocmd: "re_search_block (ascii ''gdb-command'') r = None \<longrightarrow>
        res = Inr (1, True) \<and> gdb_log st' = gdb_log st \<and>
        http_log st' = http_log st @ [messages st @ [user_message req]]"
  proof
    assume none: "re_search_block (ascii ''gdb-command'') r = None"
    from process_no_command_effect [OF none p] assms(2) obtain out where
      "res3 = Inr True" "st3 = st2\<lparr>stdout := stdout st2 @ out, processed := processed st2 @ [PStr r]\<rparr>"
      by auto
    with res st' st2 show "res = Inr (1, True) \<and> gdb_log st' = gdb_log st \<and>
        http_log st' = http_log st @ [messages st @ [user_message req]]"
      by (simp add: py_print_def)
  qed
  have cmd: "re_search_block (ascii ''gdb-command'') r = Some g \<longrightarrow>
        gdb_log st' = gdb_log st @ filter (is_safe_command E) (block_commands g) \<and>
        http_log st' =
          http_log st @
          [messages st @ [user_message req],
           messages st @ [user_message req, model_message (PStr r), user_message m]] \<and>
        res = (case fst (query E m st2) of Inl e \<Rightarrow> Inl e | Inr t \<Rightarrow> Inr (1, True))"
  proof
    assume some: "re_search_block (ascii ''gdb-command'') r = Some g"
    have g2: "gdb_log st2 = gdb_log st" by (subst st2) (simp add: py_print_def)
    have h2: "http_log st2 = http_log st @ [messages st @ [user_message req]]"
      by (subst st2) simp
    have ms2: "messages st2 = messages st @ [user_message req, model_message (PStr r)]"
      by (subst st2) simp
    have m2: "m = results_header @
        str_join [10, 10] (feedback_records E (gdb_log st2) (block_commands g))"
      using assms(4) g2 by simp
    have a: "gdb_log st3 = gdb_log st @ filter (is_safe_command E) (block_commands g)"
      using process_command_effect(1) [OF some m2 p] g2 by simp
    have b: "http_log st3 =
          http_log st @
          [messages st @ [user_message req],
           messages st @ [user_message req, model_message (PStr r), user_message m]]"
      using process_command_effect(2) [OF some m2 p] h2 ms2 by simp
    have "res3 = (case fst (query E m st2) of Inl e \<Rightarrow> Inl e | Inr t \<Rightarrow> Inr True)"
      using process_command_effect(5) [OF some m2 p] assms(2) by (simp split: sum.splits)
    with res have c: "res = (case fst (query E m st2) of Inl e \<Rightarrow> Inl e | Inr t \<Rightarrow> Inr (1, True))"
      by (simp split: sum.splits)
    from a b c st' show "gdb_log st' = gdb_log st @ filter (is_safe_command E) (block_commands g) \<and>
        http_log st' =
          http_log st @
          [messages st @ [user_message req],
           messages st @ [user_message req, model_message (PStr r), user_message m]] \<and>
        res = (case fst (query E m st2) of Inl e \<Rightarrow> Inl e | Inr t \<Rightarrow> Inr (1, True))"
      by simp
  qed
  from res res3 have "(\<exists>e. res = Inl e) \<or> res = Inr (1, True)" by auto
  with pr3 st'(1) nocmd cmd show ?thesis by simp
qed

section \<open>Concrete runs\<close>

lemmas run_defs =
  run_agent_def obtain_response_def query_def add_message_def gemini_role_def py_print_def
  process_agent_response_def command_phase_def report_blocks_def last_message_text_def
  max_iterations_def extract_text_def bind_exn_def candidate_json_def text_reply_def
  const_env_def empty_state_def match_block_here_def fence_def ascii_def
  str_split_on_def str_strip_def is_space_def is_safe_command_def str_split_def
  ascii_lower_def unsafe_commands_def execute_command_def Let_def
  agent_loop.simps user_message_def model_message_def contains_block_def

text \<open>
  Claim C9, at a response whose \<open>gdb-command\<close> block has the lines \<open>info locals\<close>, two
  spaces, and \<open>bt\<close> between spaces: the commands are \<open>info locals\<close> and \<open>bt\<close>, and
  the command phase echoes and executes exactly these two, in this order.
\<close>

theorem command_block_lines_witness:
  "re_search_block (ascii ''gdb-command'') three_line_response =
     Some (ascii ''info locals'' @ [10] @ ascii ''  '' @ [10] @ ascii ''  bt  '') \<and>
   block_commands (ascii ''info locals'' @ [10] @ ascii ''  '' @ [10] @ ascii ''  bt  '') =
     [ascii ''info locals'', ascii ''bt''] \<and>
   stdout (snd (command_phase (const_env (text_reply (ascii ''ok'')) (ascii ''x = 1''))
       three_line_response empty_state)) =
     [running_commands_banner,
      exec_echo_prefix @ ascii ''info locals'', ascii ''x = 1'',
      exec_echo_prefix @ ascii ''bt'', ascii ''x = 1''] \<and>
   gdb_log (snd (command_phase (const_env (text_reply (ascii ''ok'')) (ascii ''x = 1''))
       three_line_response empty_state)) =
     [ascii ''info locals'', ascii ''bt'']"
proof -
  let ?E = "const_env (text_reply (ascii ''ok'')) (ascii ''x = 1'')"
  let ?P = "command_phase ?E three_line_response empty_state"
  let ?g = "ascii ''info locals'' @ [10] @ ascii ''  '' @ [10] @ ascii ''  bt  ''"
  have h: "10 \<notin> set (ascii ''info locals'') \<and> 10 \<notin> set (ascii ''  '') \<and>
      10 \<notin> set (ascii ''  bt  '') \<and>
      96 \<notin> set (ascii ''info locals'' @ ascii ''  '' @ ascii ''  bt  '')"
    by (simp add: ascii_def)
  have h2: "?P = (fst ?P, snd ?P)" by simp
  have s: "filter (\<lambda>c. c \<noteq> [])
       [str_strip (ascii ''info locals''), str_strip (ascii ''  ''), str_strip (ascii ''  bt  '')] =
     [ascii ''info locals'', ascii ''bt'']"
    by (simp add: ascii_def str_strip_def is_space_def)
  have safe: "is_safe_command ?E (ascii ''info locals'')" "is_safe_command ?E (ascii ''bt'')"
    by (simp_all add: run_defs)
  note T = command_block_lines [of three_line_response ?g ?E empty_state "fst ?P" "snd ?P"
      "ascii ''info locals''" "ascii ''  ''" "ascii ''  bt  ''" "[]"]
  have h1: "re_search_block (ascii ''gdb-command'') three_line_response = Some ?g"
    by (simp add: three_line_response_def run_defs)
  have b: "block_commands ?g = [ascii ''info locals'', ascii ''bt'']"
    by (simp add: block_commands_def run_defs)
  have e: "command_echo ?E [] [ascii ''info locals'', ascii ''bt''] =
     [exec_echo_prefix @ ascii ''info locals'', ascii ''x = 1'',
      exec_echo_prefix @ ascii ''bt'', ascii ''x = 1'']"
    using safe by (simp add: command_echo_Cons command_echo_Nil command_output_def const_env_def)
  from T [OF h1 h2] have "stdout (snd ?P) =
       stdout empty_state @ running_commands_banner # command_echo ?E (gdb_log empty_state) (block_commands ?g)"
    and "gdb_log (snd ?P) = gdb_log empty_state @ filter (is_safe_command ?E) (block_commands ?g)"
    by blast+
  with h1 b e safe show ?thesis by (simp add: empty_state_def)
qed



text \<open>
  Claim C3, at a run whose first response is a \<open>complete\<close> block alone, and at a run
  whose first response holds a \<open>gdb-command\<close> block and a \<open>complete\<close> block: the
  second executes the command of the block, sends two requests and ends completed.
\<close>

theorem first_response_complete_witness:
  "fst (query (const_env (text_reply complete_response) []) (ascii ''inspect'')
     (py_print (step_banner 1) empty_state)) = Inr (PStr complete_response) \<and>
   re_search_block (ascii ''complete'') complete_response = Some (ascii ''done'' @ [10]) \<and>
   re_search_block (ascii ''gdb-command'') complete_response = None \<and>
   fst (run_agent (const_env (text_reply complete_response) []) (ascii ''inspect'') empty_state) =
     Inr (1, True) \<and>
   gdb_log (snd (run_agent (const_env (text_reply complete_response) []) (ascii ''inspect'')
     empty_state)) = [] \<and>
   re_search_block (ascii ''gdb-command'') commands_complete_response =
     Some (ascii ''info locals'' @ [10]) \<and>
   re_search_block (ascii ''complete'') commands_complete_response = Some (ascii ''done'' @ [10]) \<and>
   fst (run_agent (const_env (text_reply commands_complete_response) (ascii ''x = 1''))
     (ascii ''inspect'') empty_state) = Inr (1, True) \<and>
   gdb_log (snd (run_agent (const_env (text_reply commands_complete_response) (ascii ''x = 1''))
     (ascii ''inspect'') empty_state)) = [ascii ''info locals''] \<and>
   length (http_log (snd (run_agent (const_env (text_reply commands_complete_response)
     (ascii ''x = 1'')) (ascii ''inspect'') empty_state))) = 2"
proof -
  let ?E = "const_env (text_reply complete_response) []"
  let ?Q = "query ?E (ascii ''inspect'') (py_print (step_banner 1) empty_state)"
  let ?R = "run_agent ?E (ascii ''inspect'') empty_state"
  have q: "fst ?Q = Inr (PStr complete_response)" by (simp add: run_defs complete_response_def)
  then have h1: "?Q = (Inr (PStr complete_response), snd ?Q)" by (cases ?Q) simp
  have h2: "re_search_block (ascii ''complete'') complete_response = Some (ascii ''done'' @ [10])"
    by (simp add: run_defs complete_response_def)
  have h3: "re_search_block (ascii ''gdb-command'') complete_response = None"
    by (simp add: run_defs complete_response_def)
  have h4: "?R = (fst ?R, snd ?R)" by simp
  from first_response_complete [OF h1 h2 h4 refl, of "[]"] h3
  have A: "fst ?R = Inr (1, True) \<and> gdb_log (snd ?R) = gdb_log empty_state" by blast
  let ?F = "const_env (text_reply commands_complete_response) (ascii ''x = 1'')"
  let ?QF = "query ?F (ascii ''inspect'') (py_print (step_banner 1) empty_state)"
  let ?RF = "run_agent ?F (ascii ''inspect'') empty_state"
  let ?g = "ascii ''info locals'' @ [10]"
  have qf: "fst ?QF = Inr (PStr commands_complete_response)"
    by (simp add: run_defs commands_complete_response_def)
  then have k1: "?QF = (Inr (PStr commands_complete_response), snd ?QF)" by (cases ?QF) simp
  have k2: "re_search_block (ascii ''complete'') commands_complete_response =
      Some (ascii ''done'' @ [10])"
    by (simp add: run_defs commands_complete_response_def)
  have k3: "re_search_block (ascii ''gdb-command'') commands_complete_response = Some ?g"
    by (simp add: run_defs commands_complete_response_def)
  have k4: "?RF = (fst ?RF, snd ?RF)" by simp
  have bc: "block_commands ?g = [ascii ''info locals'']"
    by (simp add: block_commands_def run_defs)
  have safe: "is_safe_command ?F (ascii ''info locals'')" by (simp add: run_defs)
  have qm: "fst (query ?F m s) = Inr (PStr commands_complete_response)" for m s
    by (simp add: run_defs)
  from first_response_complete [OF k1 k2 k4 refl, of ?g] k3
  have "gdb_log (snd ?RF) = gdb_log empty_state @ filter (is_safe_command ?F) (block_commands ?g) \<and>
      http_log (snd ?RF) =
          http_log empty_state @
          [messages empty_state @ [user_message (ascii ''inspect'')],
           messages empty_state @
             [user_message (ascii ''inspect''), model_message (PStr commands_complete_response),
              user_message (results_header @
                str_join [10, 10] (feedback_records ?F (gdb_log empty_state) (block_commands ?g)))]] \<and>
      fst ?RF = (case fst (query ?F (results_header @
                str_join [10, 10] (feedback_records ?F (gdb_log empty_state) (block_commands ?g)))
                (snd ?QF)) of Inl e \<Rightarrow> Inl e | Inr t \<Rightarrow> Inr (1, True))"
    by blast
  then have B: "gdb_log (snd ?RF) = [ascii ''info locals''] \<and> length (http_log (snd ?RF)) = 2 \<and>
      fst ?RF = Inr (1, True)"
    using bc safe qm by (simp add: empty_state_def)
  from A B q h2 h3 k2 k3 show ?thesis by (simp add: empty_state_def)
qed

text \<open>
  Claim C3 as stated fails when the first response holds a \<open>gdb-command\<close> block beside
  the \<open>complete\<close> block: the command of the block is executed.
\<close>

theorem first_response_complete_executes_commands:
  "fst (query (const_env (text_reply commands_complete_response) (ascii ''x = 1'')) (ascii ''inspect'')
     (py_print (step_banner 1) empty_state)) = Inr (PStr commands_complete_response) \<and>
   contains_block (ascii ''complete'') (PStr commands_complete_response) \<and>
   fst (run_agent (const_env (text_reply commands_complete_response) (ascii ''x = 1''))
     (ascii ''inspect'') empty_state) = Inr (1, True) \<and>
   gdb_log (snd (run_agent (const_env (text_reply commands_complete_response) (ascii ''x = 1''))
     (ascii ''inspect'') empty_state)) = [ascii ''info locals'']"
  by (simp add: run_defs commands_complete_response_def)

text \<open>
  Claim C4, at a response with both blocks.
\<close>

theorem command_and_complete_block_witness:
  "re_search_block (ascii ''gdb-command'') commands_complete_response =
     Some (ascii ''info locals'' @ [10]) \<and>
   re_search_block (ascii ''complete'') commands_complete_response = Some (ascii ''done'' @ [10]) \<and>
   gdb_log (snd (process_agent_response (const_env (text_reply (ascii ''ok'')) (ascii ''x = 1''))
     (PStr commands_complete_response) empty_state)) = [ascii ''info locals''] \<and>
   fst (process_agent_response (const_env (text_reply (ascii ''ok'')) (ascii ''x = 1''))
     (PStr commands_complete_response) empty_state) = Inr True"
proof -
  let ?E = "const_env (text_reply (ascii ''ok'')) (ascii ''x = 1'')"
  let ?P = "process_agent_response ?E (PStr commands_complete_response) empty_state"
  have h1: "re_search_block (ascii ''gdb-command'') commands_complete_response =
     Some (ascii ''info locals'' @ [10])"
    by (simp add: run_defs commands_complete_response_def)
  have h2: "re_search_block (ascii ''complete'') commands_complete_response =
     Some (ascii ''done'' @ [10])"
    by (simp add: run_defs commands_complete_response_def)
  have h3: "?P = (fst ?P, snd ?P)" by simp
  have b: "block_commands (ascii ''info locals'' @ [10]) = [ascii ''info locals'']"
    by (simp add: block_commands_def run_defs)
  have s: "is_safe_command ?E (ascii ''info locals'')" by (simp add: run_defs commands_complete_response_def)
  have q: "fst (query ?E m empty_state) = Inr (PStr (ascii ''ok''))" for m
    by (simp add: run_defs commands_complete_response_def)
  from command_and_complete_block [OF h1 h2 h3 refl, of 0 "[]" empty_state] h1 h2 b s q
  show ?thesis by (simp add: empty_state_def)
qed

text \<open>
  Claim C6, at the response with the commands \<open>info locals\<close> and \<open>quit\<close>.
\<close>

theorem command_block_feedback_witness:
  "re_search_block (ascii ''gdb-command'') commands_response =
     Some (ascii ''info locals'' @ [10] @ ascii ''quit'' @ [10]) \<and>
   block_commands (ascii ''info locals'' @ [10] @ ascii ''quit'' @ [10]) =
     [ascii ''info locals'', ascii ''quit''] \<and>
   gdb_log (snd (process_agent_response (const_env (text_reply (ascii ''ok'')) (ascii ''x = 1''))
     (PStr commands_response) empty_state)) = [ascii ''info locals''] \<and>
   http_log (snd (process_agent_response (const_env (text_reply (ascii ''ok'')) (ascii ''x = 1''))
     (PStr commands_response) empty_state)) =
     [[user_message (results_header @
         (record_cmd_prefix @ ascii ''info locals'' @ record_result_infix @ ascii ''x = 1'') @
         [10, 10] @ (unsafe_prefix @ ascii ''quit''))]]"
proof -
  let ?E = "const_env (text_reply (ascii ''ok'')) (ascii ''x = 1'')"
  let ?P = "process_agent_response ?E (PStr commands_response) empty_state"
  have h1: "re_search_block (ascii ''gdb-command'') commands_response =
     Some (ascii ''info locals'' @ [10] @ ascii ''quit'' @ [10])"
    by (simp add: run_defs commands_response_def)
  have h2: "?P = (fst ?P, snd ?P)" by simp
  have b: "block_commands (ascii ''info locals'' @ [10] @ ascii ''quit'' @ [10]) =
     [ascii ''info locals'', ascii ''quit'']"
    by (simp add: block_commands_def run_defs)
  have s: "is_safe_command ?E (ascii ''info locals'')" "\<not> is_safe_command ?E (ascii ''quit'')"
    by (simp_all add: run_defs)
  have r: "feedback_records ?E [] [ascii ''info locals'', ascii ''quit''] =
     [record_cmd_prefix @ ascii ''info locals'' @ record_result_infix @ ascii ''x = 1'',
      unsafe_prefix @ ascii ''quit'']"
    using s by (simp add: feedback_records_Cons feedback_records_Nil command_output_def const_env_def)
  from command_block_feedback [OF h1 h2 refl refl, of 0 "[]" empty_state] h1 b s r
  show ?thesis by (simp add: empty_state_def)
qed

text \<open>
  Claim C7, at the second iteration over a history of one message.
\<close>

theorem later_iteration_reuses_last_message_witness:
  "obtain_response (const_env (PostRaises []) []) (ascii ''inspect'') 2
     (empty_state\<lparr>messages := [model_message (PStr (ascii ''hi''))]\<rparr>) =
   (Inr (PStr (ascii ''hi'')), empty_state\<lparr>messages := [model_message (PStr (ascii ''hi''))]\<rparr>)"
  using later_iteration_reuses_last_message
    [of 2 "empty_state\<lparr>messages := [model_message (PStr (ascii ''hi''))]\<rparr>"
        "const_env (PostRaises []) []" "ascii ''inspect''" 0]
  by (simp add: model_message_def)

text \<open>
  Claim C10, at a block of one whitespace-only line and one empty line.
\<close>

theorem blank_command_block_feedback_witness:
  "re_search_block (ascii ''gdb-command'') blank_commands_response = Some (ascii ''  '' @ [10, 10]) \<and>
   list_all (list_all is_space) (str_split_on 10 (ascii ''  '' @ [10, 10])) \<and>
   gdb_log (snd (process_agent_response (const_env (text_reply (ascii ''ok'')) (ascii ''x = 1''))
     (PStr blank_commands_response) empty_state)) = [] \<and>
   http_log (snd (process_agent_response (const_env (text_reply (ascii ''ok'')) (ascii ''x = 1''))
     (PStr blank_commands_response) empty_state)) = [[user_message results_header]]"
proof -
  let ?E = "const_env (text_reply (ascii ''ok'')) (ascii ''x = 1'')"
  let ?P = "process_agent_response ?E (PStr blank_commands_response) empty_state"
  have h1: "re_search_block (ascii ''gdb-command'') blank_commands_response =
     Some (ascii ''  '' @ [10, 10])"
    by (simp add: run_defs blank_commands_response_def)
  have h2: "\<forall>l\<in>set (str_split_on 10 (ascii ''  '' @ [10, 10])). \<forall>c\<in>set l. is_space c"
    by (simp add: run_defs blank_commands_response_def)
  have h3: "?P = (fst ?P, snd ?P)" by simp
  from blank_command_block_feedback [OF h1 h2 h3] h1 h2 show ?thesis
    by (simp add: empty_state_def list_all_iff)
qed

end
